(* ===== verification/Prelude.thy ===== *)
theory Prelude
  imports Complex_Main "HOL-Library.Word" "HOL-Library.Multiset"
begin

text \<open>
  Shared vocabulary of the development.  The program manipulates RGBA bytes
  (a \<open>Uint8ClampedArray\<close> from \<open>getImageData\<close>), integer pixel coordinates and
  JavaScript numbers.  Bytes are \<open>8 word\<close>, read with \<open>uint\<close>; pixel indices and
  coordinates produced by the scan are \<open>nat\<close>; coordinates used as keys of the
  segmenter's \<open>Map\<close> and \<open>Set\<close> (the strings \<open>"x,y"\<close>, an injective encoding of the
  pair) are \<open>int \<times> int\<close>, because neighbour arithmetic may leave the canvas.
  Centroids and the progress fraction are \<open>rat\<close>: the JavaScript double division
  is modelled exactly (see the header of the root theory).
\<close>

type_synonym byte = "8 word"
type_synonym rgba = "byte \<times> byte \<times> byte \<times> byte"
type_synonym coord = "int \<times> int"

named_theorems model_defs "definitions unfolded to evaluate the model on concrete inputs"
named_theorems frame_simps "equations describing what an operation leaves unchanged"

subsection \<open>Lists\<close>

text \<open>Pushing the elements of a list one by one onto a stack whose top is the head.\<close>

lemma fold_push_eq [simp]: "fold (\<lambda>x st. x # st) xs ys = rev xs @ ys"
  by (induction xs arbitrary: ys) auto

lemma fold_map_push [simp]: "fold (\<lambda>x st. f x # st) xs ys = rev (map f xs) @ ys"
  by (induction xs arbitrary: ys) auto

lemma sorted_wrt_map_Suc_upt:
  "sorted_wrt (<) (map f xs) \<Longrightarrow> (\<forall>x \<in> set xs. i < f x) \<Longrightarrow> sorted_wrt (<) (i # map f xs)"
  by simp

lemma length_filter_le_upt: "length (filter P [a..<b]) \<le> b - a"
  by (metis diff_le_self length_filter_le length_upt order_trans)

subsection \<open>Finite sets and measures\<close>

text \<open>Visiting a not yet visited element of a finite set shrinks what is left to visit:
  the measure of the segmenter's traversal.\<close>

lemma card_Diff_insert_less [intro]:
  assumes "finite A" and "x \<in> A" and "x \<notin> V"
  shows "card (A - insert x V) < card (A - V)"
proof -
  have "A - insert x V = (A - V) - {x}" by blast
  moreover have "x \<in> A - V" using assms by blast
  moreover have "finite (A - V)" using assms(1) by blast
  ultimately show ?thesis by (metis card_Diff1_less)
qed

text \<open>Visiting a key of the map that is not yet visited shrinks the set of keys left.\<close>

lemma card_unvisited_less:
  assumes "map_of m k = Some p" and "k \<notin> V"
  shows "card (fst ` set m - insert k V) < card (fst ` set m - V)"
proof -
  from assms(1) have "(k, p) \<in> set m" by (rule map_of_SomeD)
  then have "k \<in> fst ` set m" by (rule rev_image_eqI) simp
  with assms(2) show ?thesis by (intro card_Diff_insert_less) simp_all
qed

subsection \<open>Row-major indices\<close>

text \<open>A pixel index \<open>i\<close> of a raster of width \<open>w\<close> is the point
  \<open>(i mod w, i div w)\<close>; for \<open>w > 0\<close> the map is injective.\<close>

lemma row_major_inj:
  assumes "0 < (w::nat)" and "i mod w = j mod w" and "i div w = j div w"
  shows "i = j"
proof -
  have "i = i div w * w + i mod w" and "j = j div w * w + j mod w" by simp_all
  with assms(2,3) show ?thesis by metis
qed

lemma row_major_index [simp]: "i div (w::nat) * w + i mod w = i"
  by (simp add: div_mult_mod_eq)

end
