(* ===== verification/Pixel_Differ.thy ===== *)
theory Pixel_Differ
  imports Prelude
begin

text \<open>
  The pixel differ: \<open>AnswerAnimator.calculateDifferences\<close> (src/script.js,
  lines 163--191; the same code is src/script_v1.js, lines 142--170).  The two
  arguments are the flat RGBA byte arrays returned by \<open>getImageData\<close> for the blank
  and the answer page; the loop walks them four bytes at a time and emits, in scan
  order, one \<open>pixel\<close> object for every index whose summed RGB distance exceeds the
  threshold 30, with the answer page's colour and alpha.  The model is the loop as a
  structural recursion over the two byte lists (\<open>diff_scan\<close>); \<open>differences_from\<close>
  is the index-based reference of spec section 4.1 and the two are proved equal.
\<close>

record pixel =
  px_x :: nat
  px_y :: nat
  px_r :: byte
  px_g :: byte
  px_b :: byte
  px_a :: byte

definition diff_threshold :: int where
  [model_defs]: "diff_threshold = 30"

text \<open>\<open>Math.abs(blankData.data[i] - answerData.data[i])\<close> on two byte values.\<close>

definition channel_diff :: "byte \<Rightarrow> byte \<Rightarrow> int" where
  [model_defs]: "channel_diff u v = \<bar>uint u - uint v\<bar>"

text \<open>
  One iteration of the \<open>for\<close> loop reads bytes \<open>i .. i+3\<close> of both arrays; \<open>k\<close> is the
  pixel index \<open>i / 4\<close>.  Both arrays come from \<open>getImageData\<close> on the same canvas, so
  they have the same length, a multiple of four; on any other shape the second
  equation ends the scan (in JavaScript the missing bytes read as \<open>undefined\<close>, the
  sum is \<open>NaN\<close> and \<open>NaN > 30\<close> is false, so nothing more is pushed).
\<close>

fun diff_scan :: "nat \<Rightarrow> nat \<Rightarrow> byte list \<Rightarrow> byte list \<Rightarrow> pixel list" where
  "diff_scan width k (b0 # b1 # b2 # b3 # bs) (a0 # a1 # a2 # a3 # as) =
     (let totalDiff = channel_diff b0 a0 + channel_diff b1 a1 + channel_diff b2 a2;
          rest = diff_scan width (Suc k) bs as
      in if diff_threshold < totalDiff
         then \<lparr>px_x = k mod width, px_y = k div width,
               px_r = a0, px_g = a1, px_b = a2, px_a = a3\<rparr> # rest
         else rest)"
| "diff_scan width k bs as = []"

definition calculate_differences :: "nat \<Rightarrow> byte list \<Rightarrow> byte list \<Rightarrow> pixel list" where
  "calculate_differences width blankData answerData = diff_scan width 0 blankData answerData"

subsection \<open>Index-based reference\<close>

text \<open>The RGB distance of pixel \<open>k\<close> and the pixel object the code builds for it,
  its coordinates taken from the scan position \<open>base + k\<close>.\<close>

definition rgb_diff_at :: "byte list \<Rightarrow> byte list \<Rightarrow> nat \<Rightarrow> int" where
  "rgb_diff_at B A k =
     channel_diff (B ! (4 * k)) (A ! (4 * k)) + channel_diff (B ! (4 * k + 1)) (A ! (4 * k + 1))
     + channel_diff (B ! (4 * k + 2)) (A ! (4 * k + 2))"

definition pixel_from :: "nat \<Rightarrow> nat \<Rightarrow> byte list \<Rightarrow> nat \<Rightarrow> pixel" where
  "pixel_from width base A k =
     \<lparr>px_x = (base + k) mod width, px_y = (base + k) div width,
      px_r = A ! (4 * k), px_g = A ! (4 * k + 1), px_b = A ! (4 * k + 2), px_a = A ! (4 * k + 3)\<rparr>"

definition differences_from :: "nat \<Rightarrow> nat \<Rightarrow> byte list \<Rightarrow> byte list \<Rightarrow> pixel list" where
  "differences_from width base B A =
     map (pixel_from width base A) (filter (\<lambda>k. diff_threshold < rgb_diff_at B A k) [0..<length B div 4])"

subsection \<open>Lemmas\<close>

lemma nth_Cons4 [simp]: "(a # b # c # d # xs) ! (4 * Suc k + j) = xs ! (4 * k + j)"
proof -
  have "4 * Suc k + j = Suc (Suc (Suc (Suc (4 * k + j))))" by simp
  then show ?thesis by simp
qed

lemma nth_Cons4' [simp]: "(a # b # c # d # xs) ! (4 * Suc k) = xs ! (4 * k)"
  using nth_Cons4 [of a b c d xs k 0] by simp

lemma upt_div4_Cons:
  "[0..<length (b0 # b1 # b2 # b3 # bs) div 4] = 0 # map Suc [0..<length bs div 4]"
proof -
  have "length (b0 # b1 # b2 # b3 # bs) div 4 = Suc (length bs div 4)" by simp
  then show ?thesis by (simp only: upt_conv_Cons map_Suc_upt zero_less_Suc)
qed

lemma rgb_diff_at_Suc [simp]:
  "rgb_diff_at (b0 # b1 # b2 # b3 # bs) (a0 # a1 # a2 # a3 # as) (Suc k) = rgb_diff_at bs as k"
  by (simp add: rgb_diff_at_def)

lemma pixel_from_Suc [simp]:
  "pixel_from w i (a0 # a1 # a2 # a3 # as) (Suc k) = pixel_from w (Suc i) as k"
  by (simp add: pixel_from_def add.commute)

lemma rgb_diff_at_0:
  "rgb_diff_at (b0 # b1 # b2 # b3 # bs) (a0 # a1 # a2 # a3 # as) 0 =
     channel_diff b0 a0 + channel_diff b1 a1 + channel_diff b2 a2"
  by (simp add: rgb_diff_at_def)

lemma pixel_from_0:
  "pixel_from w k (a0 # a1 # a2 # a3 # as) 0 =
     \<lparr>px_x = k mod w, px_y = k div w, px_r = a0, px_g = a1, px_b = a2, px_a = a3\<rparr>"
  by (simp add: pixel_from_def)

text \<open>One step of the reference: the first pixel, then the rest from the next index.\<close>

lemma differences_from_Cons4:
  "differences_from w k (b0 # b1 # b2 # b3 # bs) (a0 # a1 # a2 # a3 # as) =
     (if diff_threshold < channel_diff b0 a0 + channel_diff b1 a1 + channel_diff b2 a2
      then \<lparr>px_x = k mod w, px_y = k div w, px_r = a0, px_g = a1, px_b = a2, px_a = a3\<rparr>
           # differences_from w (Suc k) bs as
      else differences_from w (Suc k) bs as)"
  unfolding differences_from_def upt_div4_Cons
  by (simp only: filter.simps filter_map map_map comp_def rgb_diff_at_Suc pixel_from_Suc
      rgb_diff_at_0 pixel_from_0 list.map if_distrib [of "map _"])

text \<open>The loop computes the index-based reference, from any start index.\<close>

lemma diff_scan_eq_from:
  "length A = length B \<Longrightarrow> diff_scan w i B A = differences_from w i B A"
proof (induction w i B A rule: diff_scan.induct)
  case (1 w k b0 b1 b2 b3 bs a0 a1 a2 a3 as)
  then have "diff_scan w (Suc k) bs as = differences_from w (Suc k) bs as" by simp
  then show ?case by (simp add: differences_from_Cons4 Let_def)
qed (auto simp: differences_from_def)

lemma calculate_differences_eq_from:
  "length A = length B \<Longrightarrow> calculate_differences w B A = differences_from w 0 B A"
  by (simp add: calculate_differences_def diff_scan_eq_from)

lemma set_differences_from:
  "p \<in> set (differences_from w i B A) \<longleftrightarrow>
     (\<exists>k < length B div 4. diff_threshold < rgb_diff_at B A k \<and> p = pixel_from w i A k)"
  by (auto simp: differences_from_def)

lemma coords_differences_from:
  "map (\<lambda>p. (px_x p, px_y p)) (differences_from w 0 B A) =
     map (\<lambda>k. (k mod w, k div w)) (filter (\<lambda>k. diff_threshold < rgb_diff_at B A k) [0..<length B div 4])"
  by (simp add: differences_from_def pixel_from_def)

lemma row_major_inj_on: "0 < (w::nat) \<Longrightarrow> inj_on (\<lambda>k. (k mod w, k div w)) S"
  by (auto intro: inj_onI dest: row_major_inj)

lemma channel_diff_self [simp]: "channel_diff u u = 0"
  by (simp add: channel_diff_def)

lemma diff_scan_self: "diff_scan w i B B = []"
  by (simp add: diff_scan_eq_from differences_from_def rgb_diff_at_def diff_threshold_def)

subsection \<open>Properties of the differ\<close>

text \<open>C5. The scan computes the index-based reference: for two buffers of equal length the differ returns, in scan order, exactly the pixels of the indices whose summed RGB distance exceeds 30, each with its coordinates \<open>(k mod width, k div width)\<close> and the answer buffer's colour and alpha.\<close>

theorem calculate_differences_spec:
  assumes "length answerData = length blankData"
  shows "calculate_differences width blankData answerData =
    map (pixel_from width 0 answerData)
      (filter (\<lambda>k. diff_threshold < rgb_diff_at blankData answerData k) [0..<length blankData div 4])"
  using assms by (simp add: calculate_differences_eq_from differences_from_def)

text \<open>C7. For a positive width, no two difference pixels share a coordinate: the DifferenceSet has one entry per coordinate.\<close>

theorem calculate_differences_distinct_coords:
  assumes "0 < width" and "length answerData = length blankData"
  shows "distinct (map (\<lambda>p. (px_x p, px_y p)) (calculate_differences width blankData answerData))"
  using assms
  by (simp add: calculate_differences_eq_from coords_differences_from distinct_map row_major_inj_on)

text \<open>C8. For buffers of a \<open>width \<times> height\<close> canvas, every difference pixel lies on the canvas.\<close>

theorem calculate_differences_in_canvas:
  assumes "length blankData = 4 * (width * height)" and "length answerData = length blankData"
    and "p \<in> set (calculate_differences width blankData answerData)"
  shows "px_x p < width \<and> px_y p < height"
proof -
  from assms obtain k where k: "k < width * height" and p: "p = pixel_from width 0 answerData k"
    by (auto simp: calculate_differences_eq_from set_differences_from)
  then have "0 < width" by (cases width) simp_all
  with k have "k mod width < width" and "k div width < height"
    by (simp_all add: less_mult_imp_div_less mult.commute)
  with p show ?thesis by (simp add: pixel_from_def)
qed

text \<open>C9. Identical buffers yield an empty DifferenceSet (the precondition of the NoDifference error path).\<close>

theorem calculate_differences_identical:
  "calculate_differences width blankData blankData = []"
  by (simp add: calculate_differences_def diff_scan_self)

end
