(* ===== verification/Segmenter.thy ===== *)
theory Segmenter
  imports Pixel_Differ
begin

text \<open>
  The component segmenter: \<open>AnswerAnimator.findConnectedComponents\<close> (src/script.js,
  lines 245--337).  The JavaScript keeps three pieces of state: \<open>pixelMap\<close>, a \<open>Map\<close>
  from the key \<open>"x,y"\<close> to the difference pixel; \<open>visited\<close>, a \<open>Set\<close> of keys shared by
  all traversals; and the list \<open>components\<close>.  For every difference pixel whose key is
  not yet visited, the closure \<open>dfs\<close> runs an explicit-stack depth-first traversal over
  the eight neighbours, marking a key visited when it is popped; a traversal stops
  early after its 50\,001st pixel.  A component is kept when it has more than five
  pixels.

  Model: keys are \<open>coord = int \<times> int\<close>; the \<open>Map\<close> is an association list with the
  newest binding first (\<open>Map.set\<close> overwrites, \<open>map_of\<close> returns the newest binding);
  the \<open>Set\<close> is a \<open>coord set\<close>; the JavaScript array used as a stack is a list whose head
  is the top (\<open>push\<close> is \<open>#\<close>, \<open>pop\<close> takes the head).  The \<open>while\<close> loop is the
  function \<open>dfs_loop\<close>, whose termination is proved with the measure "keys of the map
  not yet visited, then stack length"; the \<open>forEach\<close> is \<open>components_loop\<close>.
\<close>

definition pixel_key :: "pixel \<Rightarrow> coord" where
  [model_defs]: "pixel_key p = (int (px_x p), int (px_y p))"

type_synonym pixel_map = "(coord \<times> pixel) list"

text \<open>\<open>this.differenceData.forEach(pixel => pixelMap.set(key, pixel))\<close>.\<close>

definition build_pixel_map :: "pixel list \<Rightarrow> pixel_map" where
  [model_defs]: "build_pixel_map ds = fold (\<lambda>p m. (pixel_key p, p) # m) ds []"

definition directions :: "(int \<times> int) list" where
  [model_defs]: "directions = [(-1, -1), (-1, 0), (-1, 1), (0, -1), (0, 1), (1, -1), (1, 0), (1, 1)]"

text \<open>\<open>nx >= 0 && nx < width && ny >= 0 && ny < height\<close>.\<close>

definition on_canvas :: "nat \<Rightarrow> nat \<Rightarrow> coord \<Rightarrow> bool" where
  [model_defs]: "on_canvas width height xy \<longleftrightarrow>
     0 \<le> fst xy \<and> fst xy < int width \<and> 0 \<le> snd xy \<and> snd xy < int height"

text \<open>The \<open>for (const [dx, dy] of directions)\<close> loop of one traversal step: a neighbour
  is pushed when it lies on the canvas, is not visited and is a key of the map.\<close>

definition push_neighbours ::
  "nat \<Rightarrow> nat \<Rightarrow> pixel_map \<Rightarrow> coord set \<Rightarrow> coord \<Rightarrow> coord list \<Rightarrow> coord list" where
  [model_defs]: "push_neighbours width height pixelMap visited xy stack =
     fold (\<lambda>(dx, dy) st.
             let nx = fst xy + dx; ny = snd xy + dy
             in if on_canvas width height (nx, ny) \<and> (nx, ny) \<notin> visited \<and> map_of pixelMap (nx, ny) \<noteq> None
                then (nx, ny) # st else st)
       directions stack"

definition max_component_pixels :: nat where
  [model_defs]: "max_component_pixels = 50000"

text \<open>The \<open>while (stack.length > 0)\<close> loop of \<open>dfs\<close>: the stack, the shared visited set,
  the component being grown and \<open>processedCount\<close>; it returns the visited set and the
  component, the two things the closure mutates.\<close>

function dfs_loop ::
  "nat \<Rightarrow> nat \<Rightarrow> pixel_map \<Rightarrow> coord list \<Rightarrow> coord set \<Rightarrow> pixel list \<Rightarrow> nat
     \<Rightarrow> coord set \<times> pixel list" where
  "dfs_loop width height pixelMap [] visited component processedCount = (visited, component)"
| "dfs_loop width height pixelMap (xy # stack) visited component processedCount =
     (if xy \<in> visited then dfs_loop width height pixelMap stack visited component processedCount
      else case map_of pixelMap xy of
        None \<Rightarrow> dfs_loop width height pixelMap stack visited component processedCount
      | Some p \<Rightarrow>
          (if max_component_pixels < Suc processedCount
           then (insert xy visited, component @ [p])
           else dfs_loop width height pixelMap
                  (push_neighbours width height pixelMap (insert xy visited) xy stack)
                  (insert xy visited) (component @ [p]) (Suc processedCount)))"
  by pat_completeness auto
termination
  by (relation "inv_image (less_than <*lex*> less_than)
        (\<lambda>(w, h, m, st, v, c, n). (card (fst ` set m - v), length st))")
     (auto simp: card_unvisited_less)

text \<open>\<open>dfs(startX, startY, component)\<close> with a fresh \<open>component = []\<close>.\<close>

definition dfs :: "nat \<Rightarrow> nat \<Rightarrow> pixel_map \<Rightarrow> coord set \<Rightarrow> coord \<Rightarrow> coord set \<times> pixel list" where
  [model_defs]: "dfs width height pixelMap visited start = dfs_loop width height pixelMap [start] visited [] 0"

definition min_component_pixels :: nat where
  [model_defs]: "min_component_pixels = 5"

text \<open>The \<open>this.differenceData.forEach\<close> loop: a traversal from every pixel whose key is
  still unvisited, the component kept when \<open>component.length > 5\<close>.\<close>

fun components_loop ::
  "nat \<Rightarrow> nat \<Rightarrow> pixel_map \<Rightarrow> pixel list \<Rightarrow> coord set \<Rightarrow> pixel list list
     \<Rightarrow> coord set \<times> pixel list list" where
  "components_loop width height pixelMap [] visited components = (visited, components)"
| "components_loop width height pixelMap (p # ps) visited components =
     (if pixel_key p \<notin> visited
      then (case dfs width height pixelMap visited (pixel_key p) of
              (visited', component) \<Rightarrow>
                components_loop width height pixelMap ps visited'
                  (if min_component_pixels < length component then components @ [component]
                   else components))
      else components_loop width height pixelMap ps visited components)"

definition find_connected_components :: "nat \<Rightarrow> nat \<Rightarrow> pixel list \<Rightarrow> pixel list list" where
  "find_connected_components width height differenceData =
     (if differenceData = [] then []
      else snd (components_loop width height (build_pixel_map differenceData) differenceData {} []))"

subsection \<open>Reference notions\<close>

text \<open>A map built by \<open>build_pixel_map\<close> binds every pixel under its own key.\<close>

definition keyed :: "pixel_map \<Rightarrow> bool" where
  "keyed m \<longleftrightarrow> (\<forall>(k, p) \<in> set m. k = pixel_key p)"

text \<open>8-adjacency of two distinct keys, the relation the eight \<open>directions\<close> enumerate.\<close>

definition adjacent :: "coord \<Rightarrow> coord \<Rightarrow> bool" where
  "adjacent a b \<longleftrightarrow> a \<noteq> b \<and> \<bar>fst a - fst b\<bar> \<le> 1 \<and> \<bar>snd a - snd b\<bar> \<le> 1"

text \<open>\<open>linked S a b\<close>: a path of 8-adjacent keys from \<open>a\<close> to \<open>b\<close> inside \<open>S\<close>.\<close>

inductive linked :: "coord set \<Rightarrow> coord \<Rightarrow> coord \<Rightarrow> bool" for S where
  linked_refl: "a \<in> S \<Longrightarrow> linked S a a"
| linked_step: "linked S a b \<Longrightarrow> c \<in> S \<Longrightarrow> adjacent b c \<Longrightarrow> linked S a c"

text \<open>A key sequence grown by a traversal: every key after the first is adjacent to an
  earlier one.\<close>

definition grown :: "coord list \<Rightarrow> bool" where
  "grown ks \<longleftrightarrow> (\<forall>i < length ks. 0 < i \<longrightarrow> (\<exists>j < i. adjacent (ks ! j) (ks ! i)))"

text \<open>The traversals of the \<open>forEach\<close> loop before the size filter: the same loop as
  \<open>components_loop\<close>, every traversal's pixels kept.\<close>

fun traversals_loop ::
  "nat \<Rightarrow> nat \<Rightarrow> pixel_map \<Rightarrow> pixel list \<Rightarrow> coord set \<Rightarrow> coord set \<times> pixel list list" where
  "traversals_loop width height pixelMap [] visited = (visited, [])"
| "traversals_loop width height pixelMap (p # ps) visited =
     (if pixel_key p \<notin> visited
      then (case dfs width height pixelMap visited (pixel_key p) of
              (visited', component) \<Rightarrow>
                (case traversals_loop width height pixelMap ps visited' of
                   (visited'', cs) \<Rightarrow> (visited'', component # cs)))
      else traversals_loop width height pixelMap ps visited)"

definition segment_traversals :: "nat \<Rightarrow> nat \<Rightarrow> pixel list \<Rightarrow> pixel list list" where
  "segment_traversals width height ds = snd (traversals_loop width height (build_pixel_map ds) ds {})"

subsection \<open>Geometry of one traversal step\<close>

lemma fold_push_if:
  "fold (\<lambda>(dx, dy) st. let nx = fst xy + dx; ny = snd xy + dy
                        in if P (nx, ny) then (nx, ny) # st else st) ds st
   = rev (filter P (map (\<lambda>(dx, dy). (fst xy + dx, snd xy + dy)) ds)) @ st"
  by (induction ds arbitrary: st) (auto simp: Let_def)

lemma abs_le_one_int: "\<bar>d :: int\<bar> \<le> 1 \<longleftrightarrow> d = -1 \<or> d = 0 \<or> d = 1"
  by arith

lemma mem_directions:
  "(u, v) \<in> set directions \<longleftrightarrow>
     (u = -1 \<or> u = 0 \<or> u = 1) \<and> (v = -1 \<or> v = 0 \<or> v = 1) \<and> (u, v) \<noteq> (0, 0)"
  unfolding directions_def by auto

lemma adjacent_iff_direction:
  "adjacent (x, y) (a, b) \<longleftrightarrow> (a - x, b - y) \<in> set directions"
proof -
  have "\<bar>x - a\<bar> = \<bar>a - x\<bar>" and "\<bar>y - b\<bar> = \<bar>b - y\<bar>" by arith+
  moreover have "(x, y) \<noteq> (a, b) \<longleftrightarrow> (a - x, b - y) \<noteq> (0, 0)" by auto
  ultimately show ?thesis
    unfolding adjacent_def mem_directions abs_le_one_int [symmetric] by auto
qed

text \<open>The eight offsets reach exactly the 8-adjacent keys.\<close>

lemma directions_adjacent:
  "(\<lambda>(dx, dy). (fst xy + dx, snd xy + dy)) ` set directions = {k. adjacent xy k}"
proof (cases xy)
  case (Pair x y)
  have "k \<in> (\<lambda>(dx, dy). (x + dx, y + dy)) ` set directions \<longleftrightarrow> adjacent (x, y) k" for k
  proof (cases k)
    case (Pair a b)
    have "(a, b) = (\<lambda>(dx, dy). (x + dx, y + dy)) (a - x, b - y)" by simp
    then show ?thesis using Pair adjacent_iff_direction [of x y a b]
      by (auto simp: image_iff intro!: bexI [of _ "(a - x, b - y)"])
  qed
  then have "(\<lambda>(dx, dy). (x + dx, y + dy)) ` set directions = {k. adjacent (x, y) k}"
    by blast
  with Pair show ?thesis by simp
qed

lemma adjacent_sym: "adjacent a b \<Longrightarrow> adjacent b a"
  by (auto simp: adjacent_def abs_minus_commute)

lemma push_neighbours_eq:
  "push_neighbours w h m V xy st =
     rev (filter (\<lambda>k. on_canvas w h k \<and> k \<notin> V \<and> map_of m k \<noteq> None)
            (map (\<lambda>(dx, dy). (fst xy + dx, snd xy + dy)) directions)) @ st"
  unfolding push_neighbours_def by (rule fold_push_if)

lemma set_push_neighbours:
  "set (push_neighbours w h m V xy st) =
     set st \<union> {k. adjacent xy k \<and> on_canvas w h k \<and> k \<notin> V \<and> map_of m k \<noteq> None}"
proof -
  have "set (map (\<lambda>(dx, dy). (fst xy + dx, snd xy + dy)) directions) = {k. adjacent xy k}"
    by (simp only: set_map directions_adjacent)
  then show ?thesis by (auto simp: push_neighbours_eq)
qed

subsection \<open>The pixel map\<close>

lemma build_pixel_map_eq: "build_pixel_map ds = rev (map (\<lambda>p. (pixel_key p, p)) ds)"
  by (simp add: build_pixel_map_def)

lemma keyed_build_pixel_map [simp]: "keyed (build_pixel_map ds)"
  by (auto simp: keyed_def build_pixel_map_eq)

lemma keyed_map_of: "keyed m \<Longrightarrow> map_of m k = Some p \<Longrightarrow> pixel_key p = k"
  by (auto simp: keyed_def dest!: map_of_SomeD)

lemma map_of_build_pixel_map_mem:
  "map_of (build_pixel_map ds) k = Some p \<Longrightarrow> p \<in> set ds"
  by (auto simp: build_pixel_map_eq dest!: map_of_SomeD)

lemma map_of_build_pixel_map_dom:
  "p \<in> set ds \<Longrightarrow> map_of (build_pixel_map ds) (pixel_key p) \<noteq> None"
  by (auto simp: build_pixel_map_eq map_of_eq_None_iff image_iff)

subsection \<open>One traversal\<close>

text \<open>What a traversal adds: new pixels \<open>N\<close>, appended to the component in the order they
  are popped, pairwise distinct keys, none visited before, each the map's value at its
  key; the visited set grows by exactly their keys.\<close>

lemma dfs_loop_result:
  assumes "dfs_loop w h m st V C n = (V', C')" and "keyed m"
  shows "\<exists>N. C' = C @ N \<and> V' = V \<union> pixel_key ` set N \<and> distinct (map pixel_key N)
           \<and> (\<forall>p \<in> set N. pixel_key p \<notin> V \<and> map_of m (pixel_key p) = Some p)"
  using assms
proof (induction w h m st V C n arbitrary: V' C' rule: dfs_loop.induct)
  case (1 w h m V C n)
  then show ?case by simp
next
  case (2 w h m xy st V C n)
  show ?case
  proof (cases "xy \<in> V")
    case True
    with "2.prems" show ?thesis by (intro "2.IH"(1)) simp_all
  next
    case False
    show ?thesis
    proof (cases "map_of m xy")
      case None
      with False "2.prems" show ?thesis by (intro "2.IH"(2)) simp_all
    next
      case (Some p)
      with "2.prems"(2) have key: "pixel_key p = xy" by (rule keyed_map_of)
      show ?thesis
      proof (cases "max_component_pixels < Suc n")
        case True
        with False Some "2.prems"(1) have "V' = insert xy V" and "C' = C @ [p]" by simp_all
        with False Some key show ?thesis by (intro exI [of _ "[p]"]) simp
      next
        case cont: False
        with False Some "2.prems"(1) have
          rec: "dfs_loop w h m (push_neighbours w h m (insert xy V) xy st) (insert xy V) (C @ [p]) (Suc n)
                = (V', C')" by simp
        from "2.IH"(3) [OF False Some cont rec "2.prems"(2)] obtain N where
          "C' = C @ [p] @ N" and "V' = insert xy V \<union> pixel_key ` set N"
          and "distinct (map pixel_key N)"
          and "\<forall>q \<in> set N. pixel_key q \<notin> insert xy V \<and> map_of m (pixel_key q) = Some q"
          by auto
        note N = this
        have "C' = C @ p # N" using N(1) by simp
        moreover have "V' = V \<union> pixel_key ` set (p # N)" using N(2) key by auto
        moreover have "distinct (map pixel_key (p # N))" using N(3,4) key by auto
        moreover have "\<forall>q \<in> set (p # N). pixel_key q \<notin> V \<and> map_of m (pixel_key q) = Some q"
          using N(4) False Some key by auto
        ultimately show ?thesis by blast
      qed
    qed
  qed
qed

text \<open>\<open>processedCount\<close> counts the component's pixels, so a traversal stops at
  \<open>max_component_pixels + 1\<close> pixels.\<close>

lemma dfs_loop_length:
  assumes "dfs_loop w h m st V C n = (V', C')" and "length C = n" and "n \<le> max_component_pixels"
  shows "length C' \<le> Suc max_component_pixels"
  using assms
proof (induction w h m st V C n arbitrary: V' C' rule: dfs_loop.induct)
  case (1 w h m V C n)
  then show ?case by simp
next
  case (2 w h m xy st V C n)
  show ?case
  proof (cases "xy \<in> V")
    case True
    with "2.prems" show ?thesis by (intro "2.IH"(1)) simp_all
  next
    case False
    show ?thesis
    proof (cases "map_of m xy")
      case None
      with False "2.prems" show ?thesis by (intro "2.IH"(2)) simp_all
    next
      case (Some p)
      show ?thesis
      proof (cases "max_component_pixels < Suc n")
        case True
        with False Some "2.prems"(1) have "C' = C @ [p]" by simp
        with "2.prems"(2,3) show ?thesis by simp
      next
        case cont: False
        with False Some "2.prems"(1) have
          rec: "dfs_loop w h m (push_neighbours w h m (insert xy V) xy st) (insert xy V) (C @ [p]) (Suc n)
                = (V', C')" by simp
        from cont "2.prems"(2) have "length (C @ [p]) = Suc n" and "Suc n \<le> max_component_pixels"
          by simp_all
        from "2.IH"(3) [OF False Some cont rec this] show ?thesis .
      qed
    qed
  qed
qed

subsection \<open>Connectivity\<close>

lemma linked_in: "linked S a b \<Longrightarrow> a \<in> S \<and> b \<in> S"
  by (induction rule: linked.induct) auto

lemma linked_mono: "linked S a b \<Longrightarrow> S \<subseteq> T \<Longrightarrow> linked T a b"
  by (induction rule: linked.induct) (auto intro: linked.intros)

lemma linked_trans: "linked S b c \<Longrightarrow> linked S a b \<Longrightarrow> linked S a c"
  by (induction rule: linked.induct) (auto intro: linked.intros)

lemma linked_sym: "linked S a b \<Longrightarrow> linked S b a"
proof (induction rule: linked.induct)
  case (linked_refl a)
  then show ?case by (rule linked.linked_refl)
next
  case (linked_step a b c)
  from \<open>linked S a b\<close> have "b \<in> S" by (simp add: linked_in)
  with linked_step.hyps(2,3) have "linked S c b"
    by (blast intro: linked.intros adjacent_sym)
  with linked_step.IH show ?case by (rule linked_trans)
qed

lemma grown_Nil [simp]: "grown []"
  by (simp add: grown_def)

lemma grown_snoc:
  "grown (ks @ [k]) \<longleftrightarrow> grown ks \<and> (ks = [] \<or> (\<exists>j \<in> set ks. adjacent j k))"
proof -
  let ?xs = "ks @ [k]"
  have lt: "(\<exists>j<i. adjacent (?xs ! j) (?xs ! i)) \<longleftrightarrow> (\<exists>j<i. adjacent (ks ! j) (ks ! i))"
    if "i < length ks" for i
  proof -
    have "?xs ! j = ks ! j" if "j \<le> i" for j
      using that \<open>i < length ks\<close> by (simp add: nth_append_left)
    then show ?thesis by (metis less_imp_le order_refl)
  qed
  have last: "(\<exists>j<length ks. adjacent (?xs ! j) (?xs ! length ks)) \<longleftrightarrow> (\<exists>j \<in> set ks. adjacent j k)"
    by (metis in_set_conv_nth nth_append_left nth_append_length)
  have "(\<forall>i<length ks. 0 < i \<longrightarrow> (\<exists>j<i. adjacent (?xs ! j) (?xs ! i))) \<longleftrightarrow> grown ks"
    unfolding grown_def using lt by blast
  with last show ?thesis
    unfolding grown_def [of ?xs] length_append_singleton All_less_Suc by auto
qed

text \<open>A grown key sequence is connected: every key is linked to the first.\<close>

lemma grown_linked_hd: "grown ks \<Longrightarrow> b \<in> set ks \<Longrightarrow> linked (set ks) (hd ks) b"
proof (induction ks arbitrary: b rule: rev_induct)
  case Nil
  then show ?case by simp
next
  case (snoc k ks)
  show ?case
  proof (cases "ks = []")
    case True
    with snoc.prems show ?thesis by (auto intro: linked.intros)
  next
    case False
    with snoc.prems(1) obtain j where j: "j \<in> set ks" "adjacent j k" and g: "grown ks"
      by (auto simp: grown_snoc)
    have sub: "set ks \<subseteq> set (ks @ [k])" by auto
    from False have hd: "hd (ks @ [k]) = hd ks" by simp
    show ?thesis
    proof (cases "b \<in> set ks")
      case True
      from snoc.IH [OF g True] sub have "linked (set (ks @ [k])) (hd ks) b" by (rule linked_mono)
      with hd show ?thesis by simp
    next
      case False
      with snoc.prems(2) have "b = k" by simp
      from snoc.IH [OF g j(1)] sub have "linked (set (ks @ [k])) (hd ks) j" by (rule linked_mono)
      with j(2) \<open>b = k\<close> hd show ?thesis by (auto intro: linked_step)
    qed
  qed
qed

lemma grown_linked:
  assumes "grown ks" and "a \<in> set ks" and "b \<in> set ks"
  shows "linked (set ks) a b"
proof -
  from assms(1,2) have "linked (set ks) (hd ks) a" by (rule grown_linked_hd)
  then have "linked (set ks) a (hd ks)" by (rule linked_sym)
  moreover from assms(1,3) have "linked (set ks) (hd ks) b" by (rule grown_linked_hd)
  ultimately show ?thesis by (rule linked_trans [rotated])
qed

text \<open>A traversal grows its component: every pushed key is adjacent to a pixel already
  in the component, so every popped pixel after the first is.  Before the first pixel
  the stack holds at most the start key.\<close>

lemma dfs_loop_grown:
  assumes "dfs_loop w h m st V C n = (V', C')" and "keyed m" and "grown (map pixel_key C)"
    and "C = [] \<and> length st \<le> 1 \<or> (\<forall>k \<in> set st. \<exists>q \<in> set C. adjacent (pixel_key q) k)"
  shows "grown (map pixel_key C')"
  using assms
proof (induction w h m st V C n arbitrary: V' C' rule: dfs_loop.induct)
  case (1 w h m V C n)
  then show ?case by simp
next
  case (2 w h m xy st V C n)
  have inv_st: "C = [] \<and> length st \<le> 1 \<or> (\<forall>k \<in> set st. \<exists>q \<in> set C. adjacent (pixel_key q) k)"
    using "2.prems"(4) by auto
  show ?case
  proof (cases "xy \<in> V")
    case True
    with "2.prems"(1) have "dfs_loop w h m st V C n = (V', C')" by simp
    from "2.IH"(1) [OF True this "2.prems"(2,3) inv_st] show ?thesis .
  next
    case False
    show ?thesis
    proof (cases "map_of m xy")
      case None
      with False "2.prems"(1) have "dfs_loop w h m st V C n = (V', C')" by simp
      from "2.IH"(2) [OF False None this "2.prems"(2,3) inv_st] show ?thesis .
    next
      case (Some p)
      with "2.prems"(2) have key: "pixel_key p = xy" by (rule keyed_map_of)
      have first: "C = [] \<and> st = [] \<or> (\<exists>q \<in> set C. adjacent (pixel_key q) xy)
                   \<and> (\<forall>k \<in> set st. \<exists>q \<in> set C. adjacent (pixel_key q) k)"
        using "2.prems"(4) by auto
      then have "map pixel_key C = [] \<or> (\<exists>j \<in> set (map pixel_key C). adjacent j xy)"
        by auto
      with "2.prems"(3) key have g: "grown (map pixel_key (C @ [p]))"
        by (simp add: grown_snoc)
      show ?thesis
      proof (cases "max_component_pixels < Suc n")
        case True
        with False Some "2.prems"(1) have "C' = C @ [p]" by simp
        with g show ?thesis by simp
      next
        case cont: False
        with False Some "2.prems"(1) have
          rec: "dfs_loop w h m (push_neighbours w h m (insert xy V) xy st) (insert xy V) (C @ [p]) (Suc n)
                = (V', C')" by simp
        have "\<forall>k \<in> set (push_neighbours w h m (insert xy V) xy st).
                \<exists>q \<in> set (C @ [p]). adjacent (pixel_key q) k"
        proof
          fix k assume "k \<in> set (push_neighbours w h m (insert xy V) xy st)"
          then have "k \<in> set st \<or> adjacent xy k" by (auto simp: set_push_neighbours)
          with first key show "\<exists>q \<in> set (C @ [p]). adjacent (pixel_key q) k" by auto
        qed
        with "2.IH"(3) [OF False Some cont rec "2.prems"(2) g] show ?thesis by blast
      qed
    qed
  qed
qed

subsection \<open>The traversal from a seed\<close>

lemma dfs_result:
  assumes "dfs w h m V k = (V', c)" and "keyed m"
  shows "V' = V \<union> pixel_key ` set c \<and> distinct (map pixel_key c)
         \<and> (\<forall>p \<in> set c. pixel_key p \<notin> V \<and> map_of m (pixel_key p) = Some p)"
  using dfs_loop_result [of w h m "[k]" V "[]" 0 V' c] assms by (auto simp: dfs_def)

lemma dfs_grown: "dfs w h m V k = (V', c) \<Longrightarrow> keyed m \<Longrightarrow> grown (map pixel_key c)"
  unfolding dfs_def by (erule dfs_loop_grown) simp_all

lemma dfs_length: "dfs w h m V k = (V', c) \<Longrightarrow> length c \<le> Suc max_component_pixels"
  unfolding dfs_def by (erule dfs_loop_length) simp_all

text \<open>A seed that is unvisited and a key of the map is the first pixel of its traversal.\<close>

lemma dfs_seed:
  assumes "dfs w h m V k = (V', c)" and "k \<notin> V" and "map_of m k = Some q" and "keyed m"
  shows "\<exists>c'. c = q # c'"
proof -
  have "\<not> max_component_pixels < Suc 0" by (simp add: max_component_pixels_def)
  with assms have "dfs_loop w h m (push_neighbours w h m (insert k V) k []) (insert k V) [q] (Suc 0)
                    = (V', c)"
    by (simp add: dfs_def)
  from dfs_loop_result [OF this assms(4)] show ?thesis by auto
qed

subsection \<open>The loop over the difference pixels\<close>

lemma traversals_loop_result:
  assumes "traversals_loop w h m ps V = (V', cs)" and "keyed m"
  shows "V' = V \<union> pixel_key ` set (concat cs) \<and> distinct (map pixel_key (concat cs))
         \<and> (\<forall>p \<in> set (concat cs). pixel_key p \<notin> V \<and> map_of m (pixel_key p) = Some p)"
  using assms(1)
proof (induction ps arbitrary: V V' cs)
  case Nil
  then show ?case by simp
next
  case (Cons p ps)
  show ?case
  proof (cases "pixel_key p \<in> V")
    case True
    with Cons.prems have "traversals_loop w h m ps V = (V', cs)" by simp
    then show ?thesis by (rule Cons.IH)
  next
    case False
    obtain V1 c where d: "dfs w h m V (pixel_key p) = (V1, c)" by fastforce
    obtain V2 cs' where t: "traversals_loop w h m ps V1 = (V2, cs')" by fastforce
    from Cons.prems False d t have V': "V' = V2" and cs: "cs = c # cs'" by simp_all
    from dfs_result [OF d assms(2)] have
      V1: "V1 = V \<union> pixel_key ` set c" and dc: "distinct (map pixel_key c)"
      and vc: "\<forall>q \<in> set c. pixel_key q \<notin> V \<and> map_of m (pixel_key q) = Some q" by simp_all
    from Cons.IH [OF t] have
      V2: "V2 = V1 \<union> pixel_key ` set (concat cs')" and dcs: "distinct (map pixel_key (concat cs'))"
      and vcs: "\<forall>q \<in> set (concat cs'). pixel_key q \<notin> V1 \<and> map_of m (pixel_key q) = Some q"
      by simp_all
    have "V' = V \<union> pixel_key ` set (concat cs)" using V' V2 V1 cs by auto
    moreover have "set (map pixel_key c) \<inter> set (map pixel_key (concat cs')) = {}"
    proof -
      have "k \<notin> pixel_key ` set c" if "k \<in> pixel_key ` set (concat cs')" for k
      proof -
        from that obtain q where q: "q \<in> set (concat cs')" and k: "k = pixel_key q" by (rule imageE)
        from vcs q have "pixel_key q \<notin> V1 \<and> map_of m (pixel_key q) = Some q" by (rule bspec)
        then have "pixel_key q \<notin> V1" ..
        with V1 k show ?thesis by simp
      qed
      then have "pixel_key ` set c \<inter> pixel_key ` set (concat cs') = {}" by blast
      then show ?thesis by (simp only: set_map)
    qed
    then have "distinct (map pixel_key (concat cs))" using dc dcs cs by simp
    moreover have "\<forall>q \<in> set (concat cs). pixel_key q \<notin> V \<and> map_of m (pixel_key q) = Some q"
      using vc vcs V1 cs by auto
    ultimately show ?thesis by blast
  qed
qed

lemma traversals_loop_mono:
  "traversals_loop w h m ps V = (V', cs) \<Longrightarrow> keyed m \<Longrightarrow> V \<subseteq> V'"
  by (drule (1) traversals_loop_result) blast

text \<open>Every pixel of the loop's list is visited once the loop ends, and every traversal
  the loop starts is non-empty, grown and bounded.\<close>

lemma traversals_loop_covers:
  assumes "traversals_loop w h m ps V = (V', cs)" and "keyed m"
    and "\<forall>p \<in> set ps. map_of m (pixel_key p) \<noteq> None"
  shows "pixel_key ` set ps \<subseteq> V'"
  using assms(1,3)
proof (induction ps arbitrary: V V' cs)
  case Nil
  then show ?case by simp
next
  case (Cons p ps)
  show ?case
  proof (cases "pixel_key p \<in> V")
    case True
    with Cons.prems have t: "traversals_loop w h m ps V = (V', cs)" by simp
    from traversals_loop_mono [OF t assms(2)] True Cons.IH [OF t] Cons.prems(2) show ?thesis
      by auto
  next
    case False
    obtain V1 c where d: "dfs w h m V (pixel_key p) = (V1, c)" by fastforce
    obtain V2 cs' where t: "traversals_loop w h m ps V1 = (V2, cs')" by fastforce
    from Cons.prems(1) False d t have "V' = V2" by simp
    from Cons.prems(2) obtain q where q: "map_of m (pixel_key p) = Some q" by auto
    from dfs_seed [OF d False q assms(2)] obtain c' where "c = q # c'" by blast
    moreover from assms(2) q have "pixel_key q = pixel_key p" by (rule keyed_map_of)
    moreover from dfs_result [OF d assms(2)] have "V1 = V \<union> pixel_key ` set c" by simp
    ultimately have "pixel_key p \<in> V1" by auto
    with traversals_loop_mono [OF t assms(2)] Cons.IH [OF t] Cons.prems(2) \<open>V' = V2\<close> show ?thesis
      by auto
  qed
qed

lemma traversals_loop_components:
  assumes "traversals_loop w h m ps V = (V', cs)" and "keyed m"
    and "\<forall>p \<in> set ps. map_of m (pixel_key p) \<noteq> None"
  shows "\<forall>c \<in> set cs. c \<noteq> [] \<and> grown (map pixel_key c) \<and> length c \<le> Suc max_component_pixels"
  using assms(1,3)
proof (induction ps arbitrary: V V' cs)
  case Nil
  then show ?case by simp
next
  case (Cons p ps)
  show ?case
  proof (cases "pixel_key p \<in> V")
    case True
    with Cons.prems have "traversals_loop w h m ps V = (V', cs)" by simp
    with Cons.IH Cons.prems(2) show ?thesis by simp
  next
    case False
    obtain V1 c where d: "dfs w h m V (pixel_key p) = (V1, c)" by fastforce
    obtain V2 cs' where t: "traversals_loop w h m ps V1 = (V2, cs')" by fastforce
    from Cons.prems(1) False d t have "cs = c # cs'" by simp
    from Cons.prems(2) obtain q where q: "map_of m (pixel_key p) = Some q" by auto
    from dfs_seed [OF d False q assms(2)] have "c \<noteq> []" by auto
    moreover from d assms(2) have "grown (map pixel_key c)" by (rule dfs_grown)
    moreover from d have "length c \<le> Suc max_component_pixels" by (rule dfs_length)
    moreover from Cons.IH [OF t] Cons.prems(2) have
      "\<forall>c \<in> set cs'. c \<noteq> [] \<and> grown (map pixel_key c) \<and> length c \<le> Suc max_component_pixels"
      by simp
    ultimately show ?thesis using \<open>cs = c # cs'\<close> by simp
  qed
qed

text \<open>The code filters inside the loop; the same components come out when every
  traversal is collected first and the small ones are dropped afterwards.\<close>

lemma components_loop_eq:
  "components_loop w h m ps V comps =
     (fst (traversals_loop w h m ps V),
      comps @ filter (\<lambda>c. min_component_pixels < length c) (snd (traversals_loop w h m ps V)))"
  by (induction ps arbitrary: V comps) (auto split: prod.split)

lemma find_connected_components_eq:
  "find_connected_components w h ds = filter (\<lambda>c. min_component_pixels < length c) (segment_traversals w h ds)"
  by (cases ds) (simp_all add: find_connected_components_def segment_traversals_def components_loop_eq)

lemma segment_traversals_facts:
  shows "distinct (map pixel_key (concat (segment_traversals w h ds)))"
    and "set (concat (segment_traversals w h ds)) \<subseteq> set ds"
    and "pixel_key ` set ds \<subseteq> pixel_key ` set (concat (segment_traversals w h ds))"
    and "c \<in> set (segment_traversals w h ds) \<Longrightarrow>
           c \<noteq> [] \<and> grown (map pixel_key c) \<and> length c \<le> Suc max_component_pixels"
proof -
  obtain V' cs where t: "traversals_loop w h (build_pixel_map ds) ds {} = (V', cs)" by fastforce
  then have seg: "segment_traversals w h ds = cs" by (simp add: segment_traversals_def)
  have k: "keyed (build_pixel_map ds)" by simp
  have dom: "\<forall>p \<in> set ds. map_of (build_pixel_map ds) (pixel_key p) \<noteq> None"
    by (auto dest: map_of_build_pixel_map_dom)
  from traversals_loop_result [OF t k] have
    V': "V' = pixel_key ` set (concat cs)" and dist: "distinct (map pixel_key (concat cs))"
    and vals: "\<forall>p \<in> set (concat cs). map_of (build_pixel_map ds) (pixel_key p) = Some p"
    by simp_all
  from dist seg show "distinct (map pixel_key (concat (segment_traversals w h ds)))" by simp
  from vals seg show "set (concat (segment_traversals w h ds)) \<subseteq> set ds"
    by (auto dest: map_of_build_pixel_map_mem)
  from traversals_loop_covers [OF t k dom] V' seg
  show "pixel_key ` set ds \<subseteq> pixel_key ` set (concat (segment_traversals w h ds))" by simp
  assume "c \<in> set (segment_traversals w h ds)"
  with traversals_loop_components [OF t k dom] seg
  show "c \<noteq> [] \<and> grown (map pixel_key c) \<and> length c \<le> Suc max_component_pixels" by simp
qed

lemma distinct_concat_filter:
  "distinct (map f (concat xs)) \<Longrightarrow> distinct (map f (concat (filter P xs)))"
  by (induction xs) auto

lemma find_connected_components_member:
  "c \<in> set (find_connected_components w h ds) \<Longrightarrow>
     c \<in> set (segment_traversals w h ds) \<and> min_component_pixels < length c"
  by (simp add: find_connected_components_eq)

subsection \<open>Properties of the segmenter\<close>

text \<open>C1. Partition: when the difference pixels have distinct coordinates, the traversals of the segmenter (before the size filter) together contain every difference pixel exactly once.\<close>

theorem segment_partition:
  assumes "distinct (map pixel_key differenceData)"
  shows "mset (concat (segment_traversals width height differenceData)) = mset differenceData"
proof -
  let ?T = "concat (segment_traversals width height differenceData)"
  note dT = segment_traversals_facts(1) [of width height differenceData]
    and sub = segment_traversals_facts(2) [of width height differenceData]
    and cov = segment_traversals_facts(3) [of differenceData width height]
  have inj: "inj_on pixel_key (set differenceData)" using assms by (simp add: distinct_map)
  have "set differenceData \<subseteq> set ?T"
  proof
    fix p assume p: "p \<in> set differenceData"
    from p have "pixel_key p \<in> pixel_key ` set differenceData" by (rule imageI)
    with cov have "pixel_key p \<in> pixel_key ` set ?T" by (rule subsetD)
    then obtain q where q: "q \<in> set ?T" and qp: "pixel_key p = pixel_key q" by (rule imageE)
    from sub q have "q \<in> set differenceData" by (rule subsetD)
    with p inj qp have "q = p" by (simp add: inj_on_eq_iff)
    with q show "p \<in> set ?T" by simp
  qed
  with sub have "set ?T = set differenceData" by blast
  moreover from dT have "distinct ?T" by (simp add: distinct_map)
  moreover from assms have "distinct differenceData" by (simp add: distinct_map)
  ultimately show ?thesis using set_eq_iff_mset_eq_distinct by blast
qed

text \<open>C3. The components returned are the traversals with more than five pixels, in discovery order: filtering inside the loop equals filtering afterwards.\<close>

theorem find_connected_components_filter:
  "find_connected_components width height differenceData =
     filter (\<lambda>c. 5 < length c) (segment_traversals width height differenceData)"
  by (simp add: find_connected_components_eq min_component_pixels_def)

text \<open>C6. The emitted components are pairwise disjoint (no coordinate occurs twice across them) and consist of difference pixels only, whatever the input.\<close>

theorem components_disjoint:
  "distinct (map pixel_key (concat (find_connected_components width height differenceData)))
   \<and> set (concat (find_connected_components width height differenceData)) \<subseteq> set differenceData"
proof -
  have "distinct (map pixel_key (concat (find_connected_components width height differenceData)))"
    unfolding find_connected_components_eq
    by (rule distinct_concat_filter) (rule segment_traversals_facts(1))
  moreover have "set (concat (find_connected_components width height differenceData))
                   \<subseteq> set (concat (segment_traversals width height differenceData))"
    by (auto simp: find_connected_components_eq)
  ultimately show ?thesis using segment_traversals_facts(2) by blast
qed

text \<open>C2. Connectivity: any two pixels of an emitted component are joined by a path of 8-adjacent pixels that stays inside the component.\<close>

theorem component_connected:
  assumes "c \<in> set (find_connected_components width height differenceData)"
    and "a \<in> set c" and "b \<in> set c"
  shows "linked (pixel_key ` set c) (pixel_key a) (pixel_key b)"
proof -
  from assms(1) have "c \<in> set (segment_traversals width height differenceData)"
    by (simp add: find_connected_components_eq)
  then have "grown (map pixel_key c)" by (simp add: segment_traversals_facts(4))
  from grown_linked [OF this] assms(2,3) show ?thesis by simp
qed

text \<open>C4. Size filter and safety bound: every emitted component has more than five pixels and at most 50\,001 (the traversal stops after its 50\,001st pixel).\<close>

theorem component_size_bounds:
  assumes "c \<in> set (find_connected_components width height differenceData)"
  shows "5 < length c \<and> length c \<le> 50001"
proof -
  from assms have "c \<in> set (segment_traversals width height differenceData)"
    and "min_component_pixels < length c"
    by (simp_all add: find_connected_components_eq)
  moreover from this(1) have "length c \<le> Suc max_component_pixels"
    by (simp add: segment_traversals_facts(4))
  ultimately show ?thesis by (simp add: min_component_pixels_def max_component_pixels_def)
qed

end
