(* ===== verification/Sequencer.thy ===== *)
theory Sequencer
  imports Segmenter
begin

text \<open>
  The sequencer: \<open>AnswerAnimator.generateAnimationFrames\<close> (src/script.js, lines
  193--242) with its helpers \<open>getComponentCenter\<close> (lines 340--353) and
  \<open>isTransitionElement\<close> (lines 356--397).  The components are sorted in place by a
  comparator on their centroids ("same row" when the centroids' \<open>y\<close> differ by less
  than 30, then by \<open>x\<close>, otherwise by \<open>y\<close>), then mapped with their index to frame
  objects \<open>{pixels, center, isTransition, size}\<close>.

  Centroids are \<open>rat\<close>: the sums of pixel coordinates are exact integers in a double
  and the model takes the quotient exactly.  \<open>Array.prototype.sort\<close> is the engine's
  sort, not code of the repository; it is modelled as a stable insertion sort driven
  by the same comparator (\<open>sort_by\<close>).  For a comparator that orders its inputs
  consistently every stable sort returns the same list; the comparator here is not
  always consistent (see \<open>compare_centers_cyclic\<close>), and ECMAScript then leaves the
  order to the engine.
\<close>

text \<open>\<open>getComponentCenter\<close>: the \<open>forEach\<close> sums, then the two divisions.  An empty
  component (never passed: components have more than five pixels) would give \<open>NaN\<close>
  in JavaScript and \<open>0\<close> here.\<close>

definition get_component_center :: "pixel list \<Rightarrow> rat \<times> rat" where
  "get_component_center component =
     (let (sumX, sumY) = fold (\<lambda>p (sx, sy). (sx + of_nat (px_x p), sy + of_nat (px_y p))) component (0, 0)
      in (sumX / of_nat (length component), sumY / of_nat (length component)))"

definition row_band :: rat where
  [model_defs]: "row_band = 30"

text \<open>The comparator passed to \<open>characters.sort\<close>: negative when \<open>a\<close> goes first.\<close>

definition compare_centers :: "pixel list \<Rightarrow> pixel list \<Rightarrow> rat" where
  "compare_centers a b =
     (let centerA = get_component_center a; centerB = get_component_center b
      in if \<bar>snd centerA - snd centerB\<bar> < row_band then fst centerA - fst centerB
         else snd centerA - snd centerB)"

text \<open>A stable insertion sort by a comparator: an element is inserted before the first
  element it compares below, hence after every element it ties with.\<close>

fun insort_by :: "('a \<Rightarrow> 'a \<Rightarrow> rat) \<Rightarrow> 'a \<Rightarrow> 'a list \<Rightarrow> 'a list" where
  "insort_by cmp x [] = [x]"
| "insort_by cmp x (y # ys) = (if cmp x y < 0 then x # y # ys else y # insort_by cmp x ys)"

definition sort_by :: "('a \<Rightarrow> 'a \<Rightarrow> rat) \<Rightarrow> 'a list \<Rightarrow> 'a list" where
  [model_defs]: "sort_by cmp xs = foldl (\<lambda>acc x. insort_by cmp x acc) [] xs"

definition sort_characters :: "pixel list list \<Rightarrow> pixel list list" where
  [model_defs]: "sort_characters characters = sort_by compare_centers characters"

text \<open>\<open>isTransitionElement(character, allCharacters, index)\<close>: its checks in the code's
  order, each an early \<open>return true\<close>; the neighbours are read from the sorted array.\<close>

definition is_transition_element :: "pixel list \<Rightarrow> pixel list list \<Rightarrow> nat \<Rightarrow> bool" where
  "is_transition_element character allCharacters index =
     (let center = get_component_center character; size = length character
      in if size < 100 then True
         else if 0 < index \<and>
                 30 < \<bar>snd center - snd (get_component_center (allCharacters ! (index - 1)))\<bar>
         then True
         else if fst center < 150 \<and> size < 300 then True
         else if size < 200 then True
         else if index < length allCharacters - 1 \<and>
                 30 < \<bar>snd (get_component_center (allCharacters ! (index + 1))) - snd center\<bar>
         then True
         else False)"

record frame =
  fr_pixels :: "pixel list"
  fr_center :: "rat \<times> rat"
  fr_is_transition :: bool
  fr_size :: nat

definition make_frame :: "pixel list list \<Rightarrow> pixel list \<Rightarrow> nat \<Rightarrow> frame" where
  "make_frame characters character index =
     \<lparr>fr_pixels = character, fr_center = get_component_center character,
      fr_is_transition = is_transition_element character characters index,
      fr_size = length character\<rparr>"

text \<open>\<open>generateAnimationFrames\<close>: segment, return no frames when there is no component,
  otherwise sort and map each component with its index.\<close>

definition generate_animation_frames :: "nat \<Rightarrow> nat \<Rightarrow> pixel list \<Rightarrow> frame list" where
  "generate_animation_frames width height differenceData =
     (let characters = find_connected_components width height differenceData
      in if characters = [] then []
         else let sorted = sort_characters characters
              in map (\<lambda>(character, index). make_frame sorted character index)
                   (zip sorted [0..<length sorted]))"

text \<open>A well-formed frame: its size is its pixel count and above the noise bound, and its
  center is its centroid.\<close>

definition frame_wf :: "frame \<Rightarrow> bool" where
  "frame_wf f \<longleftrightarrow>
     fr_size f = length (fr_pixels f) \<and> min_component_pixels < fr_size f
     \<and> fr_center f = get_component_center (fr_pixels f)"

subsection \<open>The sort\<close>

lemma mset_insort_by [simp]: "mset (insort_by cmp x xs) = add_mset x (mset xs)"
  by (induction xs) auto

lemma mset_foldl_insort_by:
  "mset (foldl (\<lambda>acc x. insort_by cmp x acc) acc xs) = mset acc + mset xs"
  by (induction xs arbitrary: acc) auto

lemma mset_sort_by [simp]: "mset (sort_by cmp xs) = mset xs"
  by (simp add: sort_by_def mset_foldl_insort_by)

lemma set_sort_by [simp]: "set (sort_by cmp xs) = set xs"
  by (metis mset_sort_by set_mset_mset)

lemma length_sort_by [simp]: "length (sort_by cmp xs) = length xs"
  by (metis mset_sort_by size_mset)

lemma successively_ConsD: "successively P (x # xs) \<Longrightarrow> successively P xs"
  by (cases xs) simp_all

text \<open>With an antisymmetric comparator every insertion keeps neighbours in order.\<close>

lemma successively_insort_by:
  assumes antisym: "\<And>a b. cmp a b = - cmp b a"
    and "successively (\<lambda>a b. cmp a b \<le> 0) ys"
  shows "successively (\<lambda>a b. cmp a b \<le> 0) (insort_by cmp x ys)"
  using assms(2)
proof (induction ys)
  case Nil
  then show ?case by simp
next
  case (Cons y ys)
  show ?case
  proof (cases "cmp x y < 0")
    case True
    with Cons.prems show ?thesis by (simp add: successively_Cons)
  next
    case False
    then have yx: "cmp y x \<le> 0" using antisym [of y x] by simp
    from Cons.prems have ys: "successively (\<lambda>a b. cmp a b \<le> 0) ys"
      by (rule successively_ConsD)
    have hd: "cmp y (hd (insort_by cmp x ys)) \<le> 0"
    proof (cases ys)
      case Nil
      with yx show ?thesis by simp
    next
      case (Cons z zs)
      with Cons.prems yx show ?thesis by (simp add: successively_Cons)
    qed
    have "insort_by cmp x ys \<noteq> []" by (cases ys) simp_all
    with False hd Cons.IH [OF ys] show ?thesis by (simp add: successively_Cons)
  qed
qed

lemma successively_foldl_insort_by:
  assumes "\<And>a b. cmp a b = - cmp b a" and "successively (\<lambda>a b. cmp a b \<le> 0) acc"
  shows "successively (\<lambda>a b. cmp a b \<le> 0) (foldl (\<lambda>acc x. insort_by cmp x acc) acc xs)"
  using assms(2)
  by (induction xs arbitrary: acc) (simp_all add: successively_insort_by [OF assms(1)])

lemma successively_sort_by:
  assumes "\<And>a b. cmp a b = - cmp b a"
  shows "successively (\<lambda>a b. cmp a b \<le> 0) (sort_by cmp xs)"
  unfolding sort_by_def by (rule successively_foldl_insort_by [OF assms]) simp

lemma compare_centers_antisym: "compare_centers a b = - compare_centers b a"
  by (simp add: compare_centers_def Let_def abs_minus_commute)

text \<open>Where the comparator is a difference of one key on the components being sorted,
  the sort orders them by that key.\<close>

lemma sort_characters_sorted_by_key:
  assumes "\<And>a b. a \<in> set cs \<Longrightarrow> b \<in> set cs \<Longrightarrow> compare_centers a b = f a - f b"
  shows "sorted (map f (sort_characters cs))"
proof -
  have "successively (\<lambda>a b. compare_centers a b \<le> 0) (sort_characters cs)"
    unfolding sort_characters_def by (rule successively_sort_by) (rule compare_centers_antisym)
  then have "successively (\<lambda>a b. f a \<le> f b) (sort_characters cs)"
  proof (rule successively_mono)
    fix a b assume "a \<in> set (sort_characters cs)" and "b \<in> set (sort_characters cs)"
      and "compare_centers a b \<le> 0"
    with assms show "f a \<le> f b" by (simp add: sort_characters_def)
  qed
  then have "successively (\<le>) (map f (sort_characters cs))"
    by (simp add: successively_map)
  then show ?thesis
    by (simp add: successively_conv_sorted_wrt transp_on_le)
qed

subsection \<open>Centroid and classification\<close>

lemma fold_sums:
  "fold (\<lambda>p (sx, sy). (sx + of_nat (px_x p), sy + of_nat (px_y p))) c (a :: rat, b :: rat)
   = (a + of_nat (\<Sum>p\<leftarrow>c. px_x p), b + of_nat (\<Sum>p\<leftarrow>c. px_y p))"
  by (induction c arbitrary: a b) (simp_all add: algebra_simps)

lemma get_component_center_mean:
  "get_component_center c =
     (of_nat (\<Sum>p\<leftarrow>c. px_x p) / of_nat (length c), of_nat (\<Sum>p\<leftarrow>c. px_y p) / of_nat (length c))"
  using fold_sums [of c 0 0] by (simp add: get_component_center_def)


subsection \<open>The frames\<close>

lemma map_zip_upt:
  "map (\<lambda>(x, i). f x i) (zip xs [0..<length xs]) = map (\<lambda>i. f (xs ! i) i) [0..<length xs]"
  by (rule nth_equalityI) simp_all

lemma generate_animation_frames_eq:
  "generate_animation_frames w h ds =
     map (\<lambda>i. make_frame (sort_characters (find_connected_components w h ds))
                 (sort_characters (find_connected_components w h ds) ! i) i)
       [0..<length (find_connected_components w h ds)]"
proof (cases "find_connected_components w h ds = []")
  case True
  then show ?thesis by (simp add: generate_animation_frames_def)
next
  case False
  have "length (sort_characters (find_connected_components w h ds)) = length (find_connected_components w h ds)"
    by (simp add: sort_characters_def)
  with False show ?thesis
    unfolding generate_animation_frames_def Let_def map_zip_upt by simp
qed

lemma generate_animation_frames_pixels:
  "map fr_pixels (generate_animation_frames w h ds) = sort_characters (find_connected_components w h ds)"
  by (rule nth_equalityI) (simp_all add: generate_animation_frames_eq make_frame_def sort_characters_def)

lemma generate_animation_frames_nth:
  "i < length (generate_animation_frames w h ds) \<Longrightarrow>
     generate_animation_frames w h ds ! i =
       make_frame (sort_characters (find_connected_components w h ds))
         (sort_characters (find_connected_components w h ds) ! i) i"
  by (simp add: generate_animation_frames_eq)

lemma length_generate_animation_frames [simp]:
  "length (generate_animation_frames w h ds) = length (find_connected_components w h ds)"
  by (simp add: generate_animation_frames_eq)

lemma generate_animation_frames_member:
  assumes "f \<in> set (generate_animation_frames w h ds)"
  obtains i where "i < length (sort_characters (find_connected_components w h ds))"
    and "f = make_frame (sort_characters (find_connected_components w h ds))
                (sort_characters (find_connected_components w h ds) ! i) i"
  using assms by (auto simp: generate_animation_frames_eq sort_characters_def)

lemma sort_characters_nth_member:
  "i < length (sort_characters cs) \<Longrightarrow> sort_characters cs ! i \<in> set cs"
  by (metis nth_mem set_sort_by sort_characters_def)

lemma frame_center_nth:
  "i < length (generate_animation_frames w h ds) \<Longrightarrow>
     fr_center (generate_animation_frames w h ds ! i) =
       get_component_center (sort_characters (find_connected_components w h ds) ! i)"
  by (simp add: generate_animation_frames_nth make_frame_def)

lemma generate_animation_frames_wf: "list_all frame_wf (generate_animation_frames w h ds)"
proof (unfold list_all_iff, rule ballI)
  fix f assume "f \<in> set (generate_animation_frames w h ds)"
  then obtain i where i: "i < length (sort_characters (find_connected_components w h ds))"
    and f: "f = make_frame (sort_characters (find_connected_components w h ds))
                (sort_characters (find_connected_components w h ds) ! i) i"
    by (rule generate_animation_frames_member)
  from i have "sort_characters (find_connected_components w h ds) ! i \<in> set (find_connected_components w h ds)"
    by (rule sort_characters_nth_member)
  then have "min_component_pixels < length (sort_characters (find_connected_components w h ds) ! i)"
    by (simp add: find_connected_components_member)
  with f show "frame_wf f" by (simp add: frame_wf_def make_frame_def)
qed

subsection \<open>Properties of the sequencer\<close>

text \<open>C27. The frames carry the components, each exactly once: their pixel lists are a
  permutation of the segmenter's components.\<close>

theorem frames_permutation:
  "mset (map fr_pixels (generate_animation_frames width height differenceData))
   = mset (find_connected_components width height differenceData)"
  by (simp add: generate_animation_frames_pixels sort_characters_def)

text \<open>C29. Every frame's derived attributes agree with its pixels: \<open>size\<close> is the pixel
  count, \<open>center\<close> the mean of the coordinates, and the size is above the noise bound.\<close>

theorem frames_fields:
  assumes "f \<in> set (generate_animation_frames width height differenceData)"
  shows "fr_size f = length (fr_pixels f)
         \<and> fr_center f = (of_nat (\<Sum>p\<leftarrow>fr_pixels f. px_x p) / of_nat (length (fr_pixels f)),
                          of_nat (\<Sum>p\<leftarrow>fr_pixels f. px_y p) / of_nat (length (fr_pixels f)))
         \<and> 5 < fr_size f"
proof -
  let ?cs = "find_connected_components width height differenceData"
  from assms obtain i where i: "i < length (sort_characters ?cs)"
    and f: "f = make_frame (sort_characters ?cs) (sort_characters ?cs ! i) i"
    by (rule generate_animation_frames_member)
  from i have "sort_characters ?cs ! i \<in> set ?cs" by (rule sort_characters_nth_member)
  then have "min_component_pixels < length (sort_characters ?cs ! i)"
    by (simp add: find_connected_components_member)
  with f show ?thesis
    by (simp add: make_frame_def get_component_center_mean min_component_pixels_def)
qed



text \<open>One text line: when all centroids lie within the 30-pixel band of each
  other, the frames run left to right.\<close>

theorem sort_characters_one_row:
  assumes "\<forall>a \<in> set characters. \<forall>b \<in> set characters.
             \<bar>snd (get_component_center a) - snd (get_component_center b)\<bar> < 30"
  shows "sorted (map (\<lambda>c. fst (get_component_center c)) (sort_characters characters))"
  using assms
  by (intro sort_characters_sorted_by_key) (simp add: compare_centers_def row_band_def)


text \<open>No frames exactly when there are no components: the sequencer fails only where
  the segmenter found nothing above the noise bound.\<close>

theorem generate_animation_frames_empty:
  "generate_animation_frames width height differenceData = [] \<longleftrightarrow>
     find_connected_components width height differenceData = []"
  by (simp add: generate_animation_frames_eq)

end
