(* ===== verification/Canvas.thy ===== *)
theory Canvas
  imports Pixel_Differ
begin

text \<open>
  The browser's 2D canvas as far as the program uses it (src/script.js and
  src/script_v1.js).  An image is its size and pixel function; a canvas is a function
  from points to colours.  \<open>clearRect\<close> followed by \<open>drawImage(img, 0, 0)\<close> on a
  \<open>w \<times> h\<close> canvas is \<open>draw_image\<close> (compositing over a transparent canvas keeps the
  source pixel), \<open>getImageData(0, 0, w, h).data\<close> the row-major byte list
  \<open>image_data\<close>, and \<open>putImageData\<close> of a 1\<times>1 image \<open>put_pixel\<close>, a write clipped to
  the canvas.  The lemmas read \<open>image_data\<close> back by index and characterise the
  differ on two canvases: it returns exactly the points whose RGB distance exceeds
  the threshold, with the second canvas's colour (a round trip through the byte
  encoding), and writing those pixels reproduces the second canvas there.
\<close>

record image =
  img_w :: nat
  img_h :: nat
  img_px :: "nat \<Rightarrow> nat \<Rightarrow> rgba"

type_synonym raster = "nat \<times> nat \<Rightarrow> rgba"

definition transparent :: rgba where
  "transparent = (0, 0, 0, 0)"

text \<open>The canvas after \<open>clearRect(0, 0, w, h)\<close> and \<open>drawImage(img, 0, 0)\<close>.\<close>

definition draw_image :: "nat \<Rightarrow> nat \<Rightarrow> image \<Rightarrow> raster" where
  "draw_image w h img =
     (\<lambda>(x, y). if x < w \<and> y < h \<and> x < img_w img \<and> y < img_h img then img_px img x y else transparent)"

definition cleared :: raster where
  "cleared = (\<lambda>_. transparent)"

definition rgba_bytes :: "rgba \<Rightarrow> byte list" where
  "rgba_bytes c = (case c of (r, g, b, a) \<Rightarrow> [r, g, b, a])"

text \<open>\<open>getImageData(0, 0, w, h).data\<close>.\<close>

definition image_data :: "raster \<Rightarrow> nat \<Rightarrow> nat \<Rightarrow> byte list" where
  "image_data c w h = concat (map (\<lambda>k. rgba_bytes (c (k mod w, k div w))) [0..<w * h])"

text \<open>\<open>putImageData\<close> of one revealed pixel: a write inside the canvas.\<close>

definition put_pixel :: "nat \<Rightarrow> nat \<Rightarrow> pixel \<Rightarrow> raster \<Rightarrow> raster" where
  "put_pixel w h p c =
     (if px_x p < w \<and> px_y p < h then c((px_x p, px_y p) := (px_r p, px_g p, px_b p, px_a p)) else c)"

text \<open>The summed RGB distance the differ compares with the threshold, on two colours,
  and the pixel object it builds for point \<open>(x, y)\<close> of a canvas.\<close>

definition colour_distance :: "rgba \<Rightarrow> rgba \<Rightarrow> int" where
  "colour_distance c d =
     (case (c, d) of ((r, g, b, _), (r', g', b', _)) \<Rightarrow> channel_diff r r' + channel_diff g g' + channel_diff b b')"

definition pixel_at :: "raster \<Rightarrow> nat \<Rightarrow> nat \<Rightarrow> pixel" where
  "pixel_at c x y =
     (case c (x, y) of (r, g, b, a) \<Rightarrow> \<lparr>px_x = x, px_y = y, px_r = r, px_g = g, px_b = b, px_a = a\<rparr>)"

definition colour :: "pixel \<Rightarrow> rgba" where
  "colour p = (px_r p, px_g p, px_b p, px_a p)"

subsection \<open>Reading the byte list back\<close>

lemma length_rgba_bytes [simp]: "length (rgba_bytes c) = 4"
  by (simp add: rgba_bytes_def split: prod.split)

lemma concat_map_upt_length:
  "(\<And>k. length (f k) = 4) \<Longrightarrow> length (concat (map f [0..<n])) = 4 * n"
  by (induction n) simp_all

lemma concat_map_upt_nth:
  assumes "\<And>k. length (f k) = 4" and "k < n" and "j < 4"
  shows "concat (map f [0..<n]) ! (4 * k + j) = f k ! j"
  using assms(2)
proof (induction n)
  case 0
  then show ?case by simp
next
  case (Suc n)
  have len: "length (concat (map f [0..<n])) = 4 * n"
    using assms(1) by (rule concat_map_upt_length)
  show ?case
  proof (cases "k < n")
    case True
    with assms(3) have "4 * k + j < length (concat (map f [0..<n]))" by (simp add: len)
    with True Suc.IH show ?thesis by (simp add: nth_append)
  next
    case False
    with Suc.prems have "k = n" by simp
    then show ?thesis by (simp add: nth_append len)
  qed
qed

lemma length_image_data [simp]: "length (image_data c w h) = 4 * (w * h)"
  unfolding image_data_def by (rule concat_map_upt_length) simp

lemma image_data_nth:
  assumes "k < w * h" and "j < 4"
  shows "image_data c w h ! (4 * k + j) = rgba_bytes (c (k mod w, k div w)) ! j"
  unfolding image_data_def using assms by (intro concat_map_upt_nth) simp_all


lemma image_data_bytes:
  assumes "k < w * h" and "c (k mod w, k div w) = (r, g, b, a)"
  shows "image_data c w h ! (4 * k) = r" and "image_data c w h ! Suc (4 * k) = g"
    and "image_data c w h ! Suc (Suc (4 * k)) = b" and "image_data c w h ! Suc (Suc (Suc (4 * k))) = a"
    and "image_data c w h ! (4 * k + 3) = a"
  using image_data_nth [OF assms(1), of 0 c] image_data_nth [OF assms(1), of 1 c]
    image_data_nth [OF assms(1), of 2 c] image_data_nth [OF assms(1), of 3 c] assms(2)
  by (simp_all add: rgba_bytes_def numeral_eq_Suc)

subsection \<open>The differ on two canvases\<close>

lemma rgb_diff_at_image_data:
  assumes "k < w * h"
  shows "rgb_diff_at (image_data c1 w h) (image_data c2 w h) k =
           colour_distance (c1 (k mod w, k div w)) (c2 (k mod w, k div w))"
proof -
  obtain r g b a where c1: "c1 (k mod w, k div w) = (r, g, b, a)" by (cases "c1 (k mod w, k div w)")
  obtain r' g' b' a' where c2: "c2 (k mod w, k div w) = (r', g', b', a')"
    by (cases "c2 (k mod w, k div w)")
  from assms show ?thesis
    by (simp add: rgb_diff_at_def image_data_bytes [of k w h c1, OF assms c1] image_data_bytes [of k w h c2, OF assms c2]
        colour_distance_def c1 c2)
qed

lemma pixel_from_image_data:
  assumes "k < w * h"
  shows "pixel_from w 0 (image_data c w h) k = pixel_at c (k mod w) (k div w)"
proof -
  obtain r g b a where c: "c (k mod w, k div w) = (r, g, b, a)" by (cases "c (k mod w, k div w)")
  from assms show ?thesis
    by (simp add: pixel_from_def image_data_bytes [of k w h c, OF assms c] pixel_at_def c)
qed

lemma row_major_point:
  assumes "x < w" and "y < (h::nat)"
  shows "y * w + x < w * h" and "(y * w + x) mod w = x" and "(y * w + x) div w = y"
proof -
  from assms have "y * w + x < y * w + w" by simp
  also have "\<dots> = Suc y * w" by simp
  also from assms(2) have "\<dots> \<le> h * w" by (intro mult_le_mono1) simp
  finally show "y * w + x < w * h" by (simp add: mult.commute)
  from assms(1) show "(y * w + x) mod w = x" and "(y * w + x) div w = y" by simp_all
qed

lemma row_major_bounds:
  assumes "k < w * (h::nat)"
  shows "k mod w < w" and "k div w < h"
proof -
  from assms have "0 < w" by (cases w) simp_all
  then show "k mod w < w" by simp
  from assms show "k div w < h" by (simp add: less_mult_imp_div_less mult.commute)
qed


lemma calculate_differences_rasters_coords:
  assumes "0 < w"
  shows "distinct (map (\<lambda>p. (px_x p, px_y p)) (calculate_differences w (image_data c1 w h) (image_data c2 w h)))"
  using assms
  by (simp add: calculate_differences_eq_from coords_differences_from distinct_map row_major_inj_on)

subsection \<open>Writing pixels\<close>

lemma fold_put_pixel_miss:
  "(x, y) \<notin> (\<lambda>p. (px_x p, px_y p)) ` set ps \<Longrightarrow> fold (put_pixel w h) ps c (x, y) = c (x, y)"
  by (induction ps arbitrary: c) (auto simp: put_pixel_def)

lemma fold_put_pixel_hit:
  assumes "distinct (map (\<lambda>p. (px_x p, px_y p)) ps)" and "p \<in> set ps"
    and "px_x p < w" and "px_y p < h"
  shows "fold (put_pixel w h) ps c (px_x p, px_y p) = colour p"
  using assms(1,2)
proof (induction ps arbitrary: c)
  case Nil
  then show ?case by simp
next
  case (Cons q ps)
  show ?case
  proof (cases "q = p")
    case True
    with Cons.prems(1) have "(px_x p, px_y p) \<notin> (\<lambda>p. (px_x p, px_y p)) ` set ps" by auto
    then have "fold (put_pixel w h) ps (put_pixel w h p c) (px_x p, px_y p) =
                 put_pixel w h p c (px_x p, px_y p)" by (rule fold_put_pixel_miss)
    moreover from assms(3,4) have "put_pixel w h p c (px_x p, px_y p) = colour p"
      by (simp add: put_pixel_def colour_def)
    ultimately show ?thesis using True by simp
  next
    case False
    with Cons.prems have "p \<in> set ps" and "distinct (map (\<lambda>p. (px_x p, px_y p)) ps)" by simp_all
    with Cons.IH show ?thesis by simp
  qed
qed


lemma set_calculate_differences_rasters:
  "p \<in> set (calculate_differences w (image_data c1 w h) (image_data c2 w h)) \<longleftrightarrow>
     (\<exists>x y. x < w \<and> y < h \<and> diff_threshold < colour_distance (c1 (x, y)) (c2 (x, y))
            \<and> p = pixel_at c2 x y)"
proof
  assume "p \<in> set (calculate_differences w (image_data c1 w h) (image_data c2 w h))"
  then obtain k where k: "k < w * h"
    and d: "diff_threshold < rgb_diff_at (image_data c1 w h) (image_data c2 w h) k"
    and p: "p = pixel_from w 0 (image_data c2 w h) k"
    by (auto simp: calculate_differences_eq_from set_differences_from)
  from k have "k mod w < w" and "k div w < h" by (rule row_major_bounds)+
  with d p k show "\<exists>x y. x < w \<and> y < h \<and> diff_threshold < colour_distance (c1 (x, y)) (c2 (x, y))
                    \<and> p = pixel_at c2 x y"
    by (auto simp: rgb_diff_at_image_data pixel_from_image_data)
next
  assume "\<exists>x y. x < w \<and> y < h \<and> diff_threshold < colour_distance (c1 (x, y)) (c2 (x, y))
               \<and> p = pixel_at c2 x y"
  then obtain x y where x: "x < w" and y: "y < h"
    and d: "diff_threshold < colour_distance (c1 (x, y)) (c2 (x, y))" and p: "p = pixel_at c2 x y"
    by blast
  let ?k = "y * w + x"
  note pt = row_major_point [OF x y]
  from d pt have "diff_threshold < rgb_diff_at (image_data c1 w h) (image_data c2 w h) ?k"
    by (simp add: rgb_diff_at_image_data)
  moreover from p pt have "p = pixel_from w 0 (image_data c2 w h) ?k"
    by (simp add: pixel_from_image_data)
  ultimately show "p \<in> set (calculate_differences w (image_data c1 w h) (image_data c2 w h))"
    using pt(1) by (auto simp: calculate_differences_eq_from set_differences_from)
qed

lemma pixel_at_coords [simp]: "px_x (pixel_at c x y) = x" "px_y (pixel_at c x y) = y"
  by (simp_all add: pixel_at_def split: prod.split)

lemma colour_pixel_at [simp]: "colour (pixel_at c x y) = c (x, y)"
  by (simp add: pixel_at_def colour_def split: prod.split)

text \<open>Writing the differ's pixels, or any list with the same pixels and distinct
  coordinates, onto the first canvas: inside the canvas every point where the two
  canvases differ by more than the threshold takes the second canvas's colour, and
  every other point keeps the first canvas's.\<close>

lemma fold_put_pixel_differences:
  assumes "set ps = set (calculate_differences w (image_data c1 w h) (image_data c2 w h))"
    and "distinct (map (\<lambda>p. (px_x p, px_y p)) ps)" and "x < w" and "y < h"
  shows "fold (put_pixel w h) ps c (x, y) =
           (if diff_threshold < colour_distance (c1 (x, y)) (c2 (x, y)) then c2 (x, y) else c (x, y))"
proof (cases "diff_threshold < colour_distance (c1 (x, y)) (c2 (x, y))")
  case True
  with assms(1,3,4) have "pixel_at c2 x y \<in> set ps" by (auto simp: set_calculate_differences_rasters)
  from fold_put_pixel_hit [OF assms(2) this] assms(3,4) True show ?thesis by simp
next
  case False
  with assms(1) have "(x, y) \<notin> (\<lambda>p. (px_x p, px_y p)) ` set ps"
    by (auto simp: set_calculate_differences_rasters)
  with False show ?thesis by (simp add: fold_put_pixel_miss)
qed

subsection \<open>Properties of the canvas model\<close>

text \<open>C17. Round trip through the byte encoding: on the data of two \<open>w \<times> h\<close> canvases
  the differ returns exactly the points whose RGB distance exceeds the threshold, each
  with the second canvas's colour and alpha at that point.\<close>

theorem differences_of_rasters:
  "set (calculate_differences w (image_data c1 w h) (image_data c2 w h)) =
     {pixel_at c2 x y | x y. x < w \<and> y < h \<and> diff_threshold < colour_distance (c1 (x, y)) (c2 (x, y))}"
  by (auto simp: set_calculate_differences_rasters) blast+

text \<open>C18. Revealing the differences reproduces the second canvas: writing the differ's
  pixels onto the first canvas makes every point within the threshold of the second
  canvas, equal to it wherever the two differed by more.\<close>

theorem reveal_differences:
  assumes "x < w" and "y < h"
  shows "fold (put_pixel w h) (calculate_differences w (image_data c1 w h) (image_data c2 w h)) c1 (x, y) =
           (if diff_threshold < colour_distance (c1 (x, y)) (c2 (x, y)) then c2 (x, y) else c1 (x, y))"
proof -
  from assms(1) have "0 < w" by simp
  then show ?thesis
    using fold_put_pixel_differences [OF refl calculate_differences_rasters_coords assms] by simp
qed

end
