(* ===== verification/Animator.thy ===== *)
theory Animator
  imports Sequencer Canvas
begin

text \<open>
  The \<open>AnswerAnimator\<close> object and its event handlers (src/script.js): the image
  slots, the canvas, the processing results, the playback state, the timer handle, the
  enabled state of the four buttons, the progress bar and the status line.  Every
  handler is a function from the object's state to its new state.  The canvas is the
  model of theory \<open>Canvas\<close>; the rest of the browser is modelled as far as the
  handlers depend on it:
  \<^item> \<open>setTimeout\<close> appends a pending callback (an id and a delay) to \<open>timers\<close>, and
    \<open>clearTimeout(id)\<close> removes it; the only callback the program schedules is
    \<open>animateFrame\<close>, so a pending timer is its id and delay;
  \<^item> a click on a disabled button is not delivered (the \<open>event\<close> step refuses it).
  An exception escaping a handler leaves the mutations made before it; the two places
  where a handler would dereference a missing image are modelled so.
\<close>

datatype process_error = ImagesNotLoaded | NoDifference | NoTextRegions

datatype status_msg =
  MsgBlankLoaded | MsgAnswerLoaded | MsgReady | MsgProcessing | MsgProcessed
  | MsgError process_error | MsgReset | MsgComplete

datatype severity = Info | Success

datatype image_kind = Blank | Answer

record animator =
  blank_image :: "image option"
  answer_image :: "image option"
  canvas_w :: nat
  canvas_h :: nat
  canvas :: raster
  difference_data :: "pixel list"
  animation_frames :: "frame list"
  current_frame :: nat
  is_animating :: bool
  animation_speed :: int
  fast_transition_speed :: int
  animation_timer :: "nat option"
  timers :: "(nat \<times> int) list"
  next_timer_id :: nat
  process_enabled :: bool
  play_enabled :: bool
  pause_enabled :: bool
  reset_enabled :: bool
  progress :: rat
  status :: "status_msg \<times> severity"

text \<open>The constructor: nothing loaded, speed 14\,ms (slider value 9), transition speed
  1\,ms, no timer.  The buttons' initial \<open>disabled\<close> attributes live in the page, which
  is not part of the repository: all four start disabled, as spec section 8 expects.
  Browser timer ids are positive, so the first is 1.\<close>

definition init_animator :: animator where
  "init_animator =
     \<lparr>blank_image = None, answer_image = None, canvas_w = 0, canvas_h = 0, canvas = cleared,
      difference_data = [], animation_frames = [], current_frame = 0, is_animating = False,
      animation_speed = 14, fast_transition_speed = 1, animation_timer = None, timers = [],
      next_timer_id = 1, process_enabled = False, play_enabled = False, pause_enabled = False,
      reset_enabled = False, progress = 0, status = (MsgBlankLoaded, Info)\<rparr>"

definition update_status :: "status_msg \<Rightarrow> severity \<Rightarrow> animator \<Rightarrow> animator" where
  "update_status msg sev s = s\<lparr>status := (msg, sev)\<rparr>"

text \<open>The speed slider's \<open>input\<close> listener.\<close>

definition set_speed :: "int \<Rightarrow> animator \<Rightarrow> animator" where
  "set_speed speed s = s\<lparr>animation_speed := 50 - speed * 4, fast_transition_speed := 1\<rparr>"

definition setup_canvas :: "animator \<Rightarrow> animator" where
  "setup_canvas s =
     (case (blank_image s, answer_image s) of
        (Some b, Some a) \<Rightarrow>
          let width = max (img_w b) (img_w a); height = max (img_h b) (img_h a)
          in s\<lparr>canvas_w := width, canvas_h := height, canvas := draw_image width height b\<rparr>
      | _ \<Rightarrow> s)"

definition check_images_ready :: "animator \<Rightarrow> animator" where
  "check_images_ready s =
     (if blank_image s \<noteq> None \<and> answer_image s \<noteq> None
      then setup_canvas (update_status MsgReady Success (s\<lparr>process_enabled := True\<rparr>))
      else s)"

text \<open>The \<open>img.onload\<close> callback of \<open>loadImage\<close>.\<close>

definition load_image :: "image_kind \<Rightarrow> image \<Rightarrow> animator \<Rightarrow> animator" where
  "load_image kind img s =
     check_images_ready
       (case kind of
          Blank \<Rightarrow> update_status MsgBlankLoaded Info (s\<lparr>blank_image := Some img\<rparr>)
        | Answer \<Rightarrow> update_status MsgAnswerLoaded Info (s\<lparr>answer_image := Some img\<rparr>))"

text \<open>The \<open>catch\<close> block of \<open>processImages\<close>: the message, with the default severity
  \<open>info\<close>, and the process button enabled again.\<close>

definition process_failed :: "process_error \<Rightarrow> animator \<Rightarrow> animator" where
  "process_failed e s = update_status (MsgError e) Info (s\<lparr>process_enabled := True\<rparr>)"

definition process_images :: "animator \<Rightarrow> animator" where
  "process_images s0 =
     (let s = update_status MsgProcessing Info (s0\<lparr>process_enabled := False\<rparr>)
      in case (blank_image s, answer_image s) of
           (Some b, Some a) \<Rightarrow>
             let width = canvas_w s; height = canvas_h s;
                 blankData = image_data (draw_image width height b) width height;
                 answerData = image_data (draw_image width height a) width height;
                 s1 = s\<lparr>difference_data := calculate_differences width blankData answerData\<rparr>
             in if difference_data s1 = [] then process_failed NoDifference s1
                else let s2 = s1\<lparr>animation_frames :=
                                  generate_animation_frames width height (difference_data s1)\<rparr>
                     in if animation_frames s2 = [] then process_failed NoTextRegions s2
                        else update_status MsgProcessed Success
                               (s2\<lparr>play_enabled := True, reset_enabled := True\<rparr>)
         | _ \<Rightarrow> process_failed ImagesNotLoaded s)"

definition draw_frame :: "nat \<Rightarrow> nat \<Rightarrow> frame \<Rightarrow> raster \<Rightarrow> raster" where
  "draw_frame w h f c = fold (put_pixel w h) (fr_pixels f) c"

definition set_timeout :: "int \<Rightarrow> animator \<Rightarrow> animator" where
  "set_timeout delay s =
     s\<lparr>timers := timers s @ [(next_timer_id s, delay)], animation_timer := Some (next_timer_id s),
       next_timer_id := Suc (next_timer_id s)\<rparr>"

definition complete_animation :: "animator \<Rightarrow> animator" where
  "complete_animation s0 =
     (let s = s0\<lparr>is_animating := False, play_enabled := True, pause_enabled := False, progress := 100\<rparr>
      in case answer_image s of
           Some a \<Rightarrow> update_status MsgComplete Success (s\<lparr>canvas := draw_image (canvas_w s) (canvas_h s) a\<rparr>)
         | None \<Rightarrow> s\<lparr>canvas := cleared\<rparr>)"

definition animate_frame :: "animator \<Rightarrow> animator" where
  "animate_frame s =
     (if \<not> is_animating s \<or> length (animation_frames s) \<le> current_frame s then complete_animation s
      else let currentFrame = animation_frames s ! current_frame s;
               s1 = s\<lparr>canvas := draw_frame (canvas_w s) (canvas_h s) currentFrame (canvas s),
                      progress := of_nat (current_frame s + 1) / of_nat (length (animation_frames s)) * 100,
                      current_frame := Suc (current_frame s)\<rparr>;
               nextDelay = (if fr_is_transition currentFrame then fast_transition_speed s1
                            else animation_speed s1)
           in set_timeout nextDelay s1)"

definition start_animation :: "animator \<Rightarrow> animator" where
  "start_animation s =
     (if animation_frames s = [] then s
      else animate_frame (s\<lparr>is_animating := True, play_enabled := False, pause_enabled := True\<rparr>))"

definition clear_timeout :: "nat \<Rightarrow> animator \<Rightarrow> animator" where
  "clear_timeout t s = s\<lparr>timers := filter (\<lambda>(i, d). i \<noteq> t) (timers s)\<rparr>"

definition pause_animation :: "animator \<Rightarrow> animator" where
  "pause_animation s0 =
     (let s = s0\<lparr>is_animating := False\<rparr>;
          s1 = (case animation_timer s of
                  Some t \<Rightarrow> (clear_timeout t s)\<lparr>animation_timer := None\<rparr>
                | None \<Rightarrow> s)
      in s1\<lparr>play_enabled := True, pause_enabled := False\<rparr>)"

definition reset_animation :: "animator \<Rightarrow> animator" where
  "reset_animation s0 =
     (let s = (pause_animation s0)\<lparr>current_frame := 0\<rparr>
      in case blank_image s of
           Some b \<Rightarrow> update_status MsgReset Info
                      (s\<lparr>canvas := draw_image (canvas_w s) (canvas_h s) b, progress := 0,
                         play_enabled := True, reset_enabled := True\<rparr>)
         | None \<Rightarrow> s\<lparr>canvas := cleared\<rparr>)"

text \<open>A pending timer fires: it leaves the queue and runs \<open>animateFrame\<close>.\<close>

definition fire_timer :: "nat \<Rightarrow> animator \<Rightarrow> animator" where
  "fire_timer i s = animate_frame (s\<lparr>timers := take i (timers s) @ drop (Suc i) (timers s)\<rparr>)"

datatype event =
  LoadImage image_kind image | ClickProcess | ClickPlay | ClickPause | ClickReset
  | SpeedInput int | TimerFires nat

text \<open>One event delivered to the page: \<open>None\<close> when it cannot happen (a disabled
  button, a timer that is not pending).\<close>

fun step :: "animator \<Rightarrow> event \<Rightarrow> animator option" where
  "step s (LoadImage kind img) = Some (load_image kind img s)"
| "step s ClickProcess = (if process_enabled s then Some (process_images s) else None)"
| "step s ClickPlay = (if play_enabled s then Some (start_animation s) else None)"
| "step s ClickPause = (if pause_enabled s then Some (pause_animation s) else None)"
| "step s ClickReset = (if reset_enabled s then Some (reset_animation s) else None)"
| "step s (SpeedInput v) = Some (set_speed v s)"
| "step s (TimerFires i) = (if i < length (timers s) then Some (fire_timer i s) else None)"

fun run :: "animator \<Rightarrow> event list \<Rightarrow> animator option" where
  "run s [] = Some s"
| "run s (e # es) = (case step s e of None \<Rightarrow> None | Some s' \<Rightarrow> run s' es)"

inductive reachable :: "animator \<Rightarrow> bool" where
  reachable_init: "reachable init_animator"
| reachable_step: "reachable s \<Longrightarrow> step s e = Some s' \<Longrightarrow> reachable s'"

text \<open>The protection the page relies on: while an animation runs the process button is
  disabled.  \<open>reachable_guarded\<close> are the states of the runs in which Process is never
  clicked during an animation (the button can be enabled again by loading an image).\<close>

inductive reachable_guarded :: "animator \<Rightarrow> bool" where
  guarded_init: "reachable_guarded init_animator"
| guarded_step: "reachable_guarded s \<Longrightarrow> \<not> (e = ClickProcess \<and> is_animating s) \<Longrightarrow>
     step s e = Some s' \<Longrightarrow> reachable_guarded s'"

text \<open>The scheduler's invariant: at most one pending tick, pending exactly while the
  animation runs, and recorded in \<open>animationTimer\<close>; the play button is disabled while
  the animation runs.\<close>

definition timer_inv :: "animator \<Rightarrow> bool" where
  "timer_inv s \<longleftrightarrow>
     length (timers s) \<le> 1 \<and> (is_animating s \<longleftrightarrow> timers s \<noteq> [])
     \<and> (\<forall>t d. timers s = [(t, d)] \<longrightarrow> animation_timer s = Some t)
     \<and> (is_animating s \<longrightarrow> \<not> play_enabled s)"

definition frame_delay :: "animator \<Rightarrow> frame \<Rightarrow> int" where
  "frame_delay s f = (if fr_is_transition f then fast_transition_speed s else animation_speed s)"

text \<open>The state after \<open>k\<close> revealed frames of a playback started from \<open>s\<close>.\<close>

definition revealed_state :: "animator \<Rightarrow> nat \<Rightarrow> animator" where
  "revealed_state s k =
     s\<lparr>is_animating := True, play_enabled := False, pause_enabled := True,
       canvas := fold (draw_frame (canvas_w s) (canvas_h s)) (take k (animation_frames s)) (canvas s),
       progress := of_nat k / of_nat (length (animation_frames s)) * 100,
       current_frame := k,
       timers := [(next_timer_id s + (k - 1), frame_delay s (animation_frames s ! (k - 1)))],
       animation_timer := Some (next_timer_id s + (k - 1)),
       next_timer_id := next_timer_id s + k\<rparr>"

subsection \<open>What the handlers leave unchanged\<close>

lemma setup_canvas_frame:
  "timers (setup_canvas s) = timers s" "is_animating (setup_canvas s) = is_animating s"
  "animation_timer (setup_canvas s) = animation_timer s" "play_enabled (setup_canvas s) = play_enabled s"
  "animation_frames (setup_canvas s) = animation_frames s" "current_frame (setup_canvas s) = current_frame s"
  "process_enabled (setup_canvas s) = process_enabled s"
  unfolding setup_canvas_def by (simp_all add: Let_def split: option.split)
lemma check_images_ready_frame:
  "timers (check_images_ready s) = timers s" "is_animating (check_images_ready s) = is_animating s"
  "animation_timer (check_images_ready s) = animation_timer s" "play_enabled (check_images_ready s) = play_enabled s"
  "animation_frames (check_images_ready s) = animation_frames s" "current_frame (check_images_ready s) = current_frame s"
  unfolding check_images_ready_def by (simp_all add: setup_canvas_frame update_status_def)
lemma load_image_frame [frame_simps]:
  "timers (load_image k img s) = timers s" "is_animating (load_image k img s) = is_animating s"
  "animation_timer (load_image k img s) = animation_timer s"
  "play_enabled (load_image k img s) = play_enabled s"
  "animation_frames (load_image k img s) = animation_frames s"
  "current_frame (load_image k img s) = current_frame s"
  unfolding load_image_def by (simp_all add: check_images_ready_frame update_status_def split: image_kind.split)

lemma set_speed_frame [frame_simps]:
  "timers (set_speed v s) = timers s" "is_animating (set_speed v s) = is_animating s"
  "animation_timer (set_speed v s) = animation_timer s" "play_enabled (set_speed v s) = play_enabled s"
  by (simp_all add: set_speed_def)

lemma process_images_frame [frame_simps]:
  "timers (process_images s) = timers s" "is_animating (process_images s) = is_animating s"
  "animation_timer (process_images s) = animation_timer s"
  "current_frame (process_images s) = current_frame s"
  by (simp_all add: process_images_def process_failed_def update_status_def Let_def
      split: option.split)

lemma complete_animation_frame [frame_simps]:
  "timers (complete_animation s) = timers s" "is_animating (complete_animation s) = False"
  "animation_timer (complete_animation s) = animation_timer s"
  "current_frame (complete_animation s) = current_frame s"
  by (simp_all add: complete_animation_def update_status_def Let_def split: option.split)

lemma pause_animation_frame [frame_simps]:
  "is_animating (pause_animation s) = False" "play_enabled (pause_animation s) = True"
  "timers (pause_animation s) =
     (case animation_timer s of Some t \<Rightarrow> filter (\<lambda>(i, d). i \<noteq> t) (timers s) | None \<Rightarrow> timers s)"
  "animation_timer (pause_animation s) = None"
  by (simp_all add: pause_animation_def clear_timeout_def Let_def split: option.split)

lemma reset_animation_frame [frame_simps]:
  "is_animating (reset_animation s) = False"
  "timers (reset_animation s) = timers (pause_animation s)"
  "animation_timer (reset_animation s) = None"
  "current_frame (reset_animation s) = 0"
  by (simp_all add: reset_animation_def update_status_def pause_animation_frame Let_def
      split: option.split)

lemma animate_frame_frames: "animation_frames (animate_frame s) = animation_frames s"
  by (simp add: animate_frame_def complete_animation_def set_timeout_def update_status_def Let_def
      split: option.split)

lemma start_animation_frames: "animation_frames (start_animation s) = animation_frames s"
  by (simp add: start_animation_def animate_frame_frames)

lemma fire_timer_frames: "animation_frames (fire_timer i s) = animation_frames s"
  by (simp add: fire_timer_def animate_frame_frames)

lemma process_images_frames_wf:
  "list_all frame_wf (animation_frames s) \<Longrightarrow> list_all frame_wf (animation_frames (process_images s))"
  by (simp add: process_images_def process_failed_def update_status_def Let_def
      generate_animation_frames_wf split: option.split)

subsection \<open>One tick of the playback\<close>

lemma animate_frame_running:
  assumes "is_animating s" and "current_frame s < length (animation_frames s)"
  shows "animate_frame s =
    set_timeout (frame_delay s (animation_frames s ! current_frame s))
      (s\<lparr>canvas := draw_frame (canvas_w s) (canvas_h s) (animation_frames s ! current_frame s) (canvas s),
         progress := of_nat (current_frame s + 1) / of_nat (length (animation_frames s)) * 100,
         current_frame := Suc (current_frame s)\<rparr>)"
  using assms by (simp add: animate_frame_def frame_delay_def Let_def)

lemma animate_frame_stopped:
  "\<not> is_animating s \<or> length (animation_frames s) \<le> current_frame s \<Longrightarrow>
     animate_frame s = complete_animation s"
  by (auto simp: animate_frame_def)

lemma fire_timer_0: "fire_timer 0 s = animate_frame (s\<lparr>timers := tl (timers s)\<rparr>)"
  by (simp add: fire_timer_def drop_Suc)

lemma fold_take_Suc:
  "k < length xs \<Longrightarrow> fold f (take (Suc k) xs) c = f (xs ! k) (fold f (take k xs) c)"
  by (simp add: take_Suc_conv_app_nth)

lemma playback_prefix:
  assumes "animation_frames s = F" and "current_frame s = 0" and "timers s = []" and "k < length F"
  shows "(fire_timer 0 ^^ k) (start_animation s) = revealed_state s (Suc k)"
  using assms(4)
proof (induction k)
  case 0
  from assms(1,4) have "F \<noteq> []" by auto
  with assms(1,2,3) show ?case
    by (simp add: start_animation_def animate_frame_running revealed_state_def set_timeout_def
        frame_delay_def fold_take_Suc [where k = 0])
next
  case (Suc k)
  then have IH: "(fire_timer 0 ^^ k) (start_animation s) = revealed_state s (Suc k)" by simp
  have "fire_timer 0 (revealed_state s (Suc k)) = revealed_state s (Suc (Suc k))"
    using Suc.prems assms(1)
    by (simp add: fire_timer_0 revealed_state_def animate_frame_running set_timeout_def
        frame_delay_def fold_take_Suc algebra_simps)
  with IH show ?case by simp
qed


subsection \<open>The scheduler's invariant\<close>

lemma complete_animation_flags:
  "play_enabled (complete_animation s) = True" "pause_enabled (complete_animation s) = False"
  "progress (complete_animation s) = 100"
  by (simp_all add: complete_animation_def update_status_def Let_def split: option.split)

lemma timer_inv_complete: "timers s = [] \<Longrightarrow> timer_inv (complete_animation s)"
  by (simp add: timer_inv_def complete_animation_frame complete_animation_flags)

lemma timer_inv_animate_frame:
  assumes "timers s = []" and "is_animating s" and "\<not> play_enabled s"
  shows "timer_inv (animate_frame s)"
proof (cases "length (animation_frames s) \<le> current_frame s")
  case True
  with assms(1) show ?thesis by (simp add: animate_frame_stopped timer_inv_complete)
next
  case False
  with assms show ?thesis
    by (simp add: animate_frame_running timer_inv_def set_timeout_def)
qed

lemma timer_inv_init: "timer_inv init_animator"
  by (simp add: timer_inv_def init_animator_def)

lemma timer_inv_load_image: "timer_inv s \<Longrightarrow> timer_inv (load_image k img s)"
  by (simp add: timer_inv_def load_image_frame)

lemma timer_inv_set_speed: "timer_inv s \<Longrightarrow> timer_inv (set_speed v s)"
  by (simp add: timer_inv_def set_speed_frame)

lemma timer_inv_process_images:
  "timer_inv s \<Longrightarrow> \<not> is_animating s \<Longrightarrow> timer_inv (process_images s)"
  by (simp add: timer_inv_def process_images_frame)

lemma timer_inv_start_animation:
  assumes "timer_inv s" and "play_enabled s"
  shows "timer_inv (start_animation s)"
proof -
  from assms have "\<not> is_animating s" and "timers s = []" by (auto simp: timer_inv_def)
  then show ?thesis
    using assms(1) by (simp add: start_animation_def timer_inv_animate_frame)
qed

text \<open>With the invariant, \<open>pauseAnimation\<close> cancels every pending tick.\<close>

lemma pause_animation_clears:
  assumes "timer_inv s" shows "timers (pause_animation s) = []"
proof (cases "timers s")
  case Nil
  then show ?thesis by (simp add: pause_animation_frame split: option.split)
next
  case (Cons t ts)
  with assms obtain i d where "timers s = [(i, d)]" and "animation_timer s = Some i"
    by (cases t) (auto simp: timer_inv_def)
  then show ?thesis by (simp add: pause_animation_frame)
qed

lemma timer_inv_pause_animation: "timer_inv s \<Longrightarrow> timer_inv (pause_animation s)"
  by (drule pause_animation_clears) (simp add: timer_inv_def pause_animation_frame(1))

lemma timer_inv_reset_animation: "timer_inv s \<Longrightarrow> timer_inv (reset_animation s)"
  by (drule pause_animation_clears) (simp add: timer_inv_def reset_animation_frame)

lemma timer_inv_fire_timer:
  assumes "timer_inv s" and "i < length (timers s)"
  shows "timer_inv (fire_timer i s)"
proof -
  from assms obtain t d where "timers s = [(t, d)]" and "i = 0"
    by (cases "timers s") (auto simp: timer_inv_def)
  with assms(1) have "is_animating s" and "\<not> play_enabled s" by (auto simp: timer_inv_def)
  then show ?thesis
    using \<open>timers s = [(t, d)]\<close> \<open>i = 0\<close> by (simp add: fire_timer_0 timer_inv_animate_frame)
qed

lemma timer_inv_step:
  assumes "timer_inv s" and "\<not> (e = ClickProcess \<and> is_animating s)" and "step s e = Some s'"
  shows "timer_inv s'"
  using assms
  by (cases e) (auto simp: timer_inv_load_image timer_inv_set_speed timer_inv_process_images
      timer_inv_start_animation timer_inv_pause_animation timer_inv_reset_animation
      timer_inv_fire_timer split: if_splits)

lemma reachable_guarded_timer_inv: "reachable_guarded s \<Longrightarrow> timer_inv s"
  by (induction rule: reachable_guarded.induct) (auto intro: timer_inv_init timer_inv_step)


subsection \<open>Playback\<close>

lemma fire_timer_last:
  "fire_timer 0 (revealed_state s (length (animation_frames s))) =
     complete_animation ((revealed_state s (length (animation_frames s)))\<lparr>timers := []\<rparr>)"
  by (simp add: fire_timer_0 animate_frame_stopped revealed_state_def)

lemma funpow_length_pred:
  "xs \<noteq> [] \<Longrightarrow> (f ^^ length xs) x = f ((f ^^ (length xs - 1)) x)"
  by (cases xs) simp_all

text \<open>C13. Tick \<open>k\<close> of a playback started at frame 0 with no pending timer: the canvas shows
  the first \<open>k + 1\<close> frames drawn over the canvas at start, the progress is
  \<open>(k + 1) / total\<close>, and exactly one tick is pending, with the transition delay for a
  transition frame and the content delay otherwise.\<close>

theorem playback_tick:
  assumes "current_frame s = 0" and "timers s = []" and "k < length (animation_frames s)"
  shows "canvas ((fire_timer 0 ^^ k) (start_animation s)) =
           fold (draw_frame (canvas_w s) (canvas_h s)) (take (Suc k) (animation_frames s)) (canvas s)
         \<and> progress ((fire_timer 0 ^^ k) (start_animation s)) = of_nat (Suc k) / of_nat (length (animation_frames s)) * 100
         \<and> is_animating ((fire_timer 0 ^^ k) (start_animation s))
         \<and> map snd (timers ((fire_timer 0 ^^ k) (start_animation s))) =
             [if fr_is_transition (animation_frames s ! k) then fast_transition_speed s else animation_speed s]"
  using playback_prefix [OF refl assms] by (simp add: revealed_state_def frame_delay_def)

text \<open>C10. Completion: a playback started at frame 0 with no pending timer ends after one
  tick per frame with no pending tick, the animation stopped, the progress at 100\,\%,
  the success status and the whole answer image on the canvas.\<close>

theorem playback_completes:
  assumes "current_frame s = 0" and "timers s = []" and "animation_frames s \<noteq> []"
    and "answer_image s = Some a"
  shows "(fire_timer 0 ^^ length (animation_frames s)) (start_animation s) =
           complete_animation ((revealed_state s (length (animation_frames s)))\<lparr>timers := []\<rparr>)
         \<and> canvas ((fire_timer 0 ^^ length (animation_frames s)) (start_animation s)) =
             draw_image (canvas_w s) (canvas_h s) a
         \<and> timers ((fire_timer 0 ^^ length (animation_frames s)) (start_animation s)) = []
         \<and> \<not> is_animating ((fire_timer 0 ^^ length (animation_frames s)) (start_animation s))
         \<and> progress ((fire_timer 0 ^^ length (animation_frames s)) (start_animation s)) = 100
         \<and> status ((fire_timer 0 ^^ length (animation_frames s)) (start_animation s)) = (MsgComplete, Success)"
proof -
  let ?n = "length (animation_frames s)"
  from assms(3) have "?n - 1 < ?n" by simp
  from playback_prefix [OF refl assms(1,2) this] assms(3)
  have "(fire_timer 0 ^^ (?n - 1)) (start_animation s) = revealed_state s ?n" by simp
  with assms(3) have eq: "(fire_timer 0 ^^ ?n) (start_animation s) =
      complete_animation ((revealed_state s ?n)\<lparr>timers := []\<rparr>)"
    by (simp add: funpow_length_pred fire_timer_last)
  with assms(4) show ?thesis
    by (simp add: complete_animation_def update_status_def revealed_state_def)
qed






subsection \<open>Scheduler safety\<close>

text \<open>C14. In every run that never clicks Process during an animation, at most one
  \<open>animateFrame\<close> tick is pending, and one is pending exactly while the animation runs.\<close>

theorem guarded_single_tick:
  assumes "reachable_guarded s"
  shows "length (timers s) \<le> 1 \<and> (is_animating s \<longleftrightarrow> timers s \<noteq> [])"
  using reachable_guarded_timer_inv [OF assms] by (simp add: timer_inv_def)

text \<open>C15. In those runs, pause and reset cancel the pending tick: afterwards no timer
  can fire, so no pixel is written until Play is clicked again.\<close>

theorem guarded_pause_stops:
  assumes "reachable_guarded s"
  shows "timers (pause_animation s) = [] \<and> timers (reset_animation s) = []
         \<and> (\<forall>i. step (pause_animation s) (TimerFires i) = None)"
proof -
  from reachable_guarded_timer_inv [OF assms] have "timers (pause_animation s) = []"
    by (rule pause_animation_clears)
  then show ?thesis by (simp add: reset_animation_frame)
qed

subsection \<open>Processing\<close>

lemma process_images_data:
  assumes "blank_image s = Some b" and "answer_image s = Some a"
  shows "process_images s =
    (let D = calculate_differences (canvas_w s)
               (image_data (draw_image (canvas_w s) (canvas_h s) b) (canvas_w s) (canvas_h s))
               (image_data (draw_image (canvas_w s) (canvas_h s) a) (canvas_w s) (canvas_h s));
         s1 = s\<lparr>process_enabled := False, status := (MsgProcessing, Info), difference_data := D\<rparr>
     in if D = [] then process_failed NoDifference s1
        else if generate_animation_frames (canvas_w s) (canvas_h s) D = []
        then process_failed NoTextRegions (s1\<lparr>animation_frames := []\<rparr>)
        else update_status MsgProcessed Success
               (s1\<lparr>animation_frames := generate_animation_frames (canvas_w s) (canvas_h s) D,
                   play_enabled := True, reset_enabled := True\<rparr>))"
  using assms by (simp add: process_images_def update_status_def Let_def)

text \<open>C34. Missing image: processing reports \<open>ImagesNotLoaded\<close> and changes nothing but
  the status line and the process button.\<close>

theorem process_images_not_loaded:
  assumes "blank_image s = None \<or> answer_image s = None"
  shows "process_images s = s\<lparr>process_enabled := True, status := (MsgError ImagesNotLoaded, Info)\<rparr>"
  using assms by (auto simp: process_images_def process_failed_def update_status_def Let_def
      split: option.split)

text \<open>C33. Identical pixel data: processing reports \<open>NoDifference\<close>, records the empty
  difference set and leaves the play and reset buttons as they were.\<close>

theorem process_images_no_difference:
  assumes "blank_image s = Some b" and "answer_image s = Some a"
    and "image_data (draw_image (canvas_w s) (canvas_h s) a) (canvas_w s) (canvas_h s) =
         image_data (draw_image (canvas_w s) (canvas_h s) b) (canvas_w s) (canvas_h s)"
  shows "process_images s =
           s\<lparr>process_enabled := True, difference_data := [], status := (MsgError NoDifference, Info)\<rparr>"
  using assms by (simp add: process_images_data calculate_differences_def diff_scan_self
      process_failed_def update_status_def)

text \<open>C32. Success: when the frames are not empty, processing stores the differences and
  the frames, enables play and reset, reports success, and keeps \<open>currentFrame\<close>, which
  it does not reset.\<close>

theorem process_images_success:
  assumes "blank_image s = Some b" and "answer_image s = Some a"
    and "D = calculate_differences (canvas_w s)
               (image_data (draw_image (canvas_w s) (canvas_h s) b) (canvas_w s) (canvas_h s))
               (image_data (draw_image (canvas_w s) (canvas_h s) a) (canvas_w s) (canvas_h s))"
    and "generate_animation_frames (canvas_w s) (canvas_h s) D \<noteq> []"
  shows "process_images s =
           s\<lparr>process_enabled := False, difference_data := D,
             animation_frames := generate_animation_frames (canvas_w s) (canvas_h s) D,
             play_enabled := True, reset_enabled := True, status := (MsgProcessed, Success)\<rparr>"
proof -
  from assms(4) have "D \<noteq> []" by (auto simp: generate_animation_frames_def find_connected_components_def)
  with assms show ?thesis by (simp add: process_images_data update_status_def Let_def)
qed


subsection \<open>Well-formed states\<close>

lemma step_frames_wf:
  "step s e = Some s' \<Longrightarrow> list_all frame_wf (animation_frames s) \<Longrightarrow> list_all frame_wf (animation_frames s')"
  by (cases e) (auto simp: load_image_frame set_speed_def process_images_frames_wf start_animation_frames
      pause_animation_def clear_timeout_def reset_animation_def update_status_def fire_timer_frames
      Let_def split: if_splits option.split)

text \<open>C26. In every reachable state, also when Process is clicked during a playback, every
  frame is well formed: its size is its pixel count and above the noise bound, and its
  center is its centroid.\<close>

theorem reachable_frames_wf:
  assumes "reachable s"
  shows "list_all frame_wf (animation_frames s)"
  using assms
proof (induction rule: reachable.induct)
  case reachable_init
  then show ?case by (simp add: init_animator_def)
next
  case (reachable_step s e s')
  from reachable_step.hyps(2) reachable_step.IH show ?case by (rule step_frames_wf)
qed

end
