(* ===== verification/Playback_Spec.thy ===== *)
theory Playback_Spec
  imports Animator
begin








subsection \<open>What the handlers do to the fields of the abstraction\<close>





lemma set_timeout_fields [simp]:
  "is_animating (set_timeout d s) = is_animating s" "current_frame (set_timeout d s) = current_frame s"
  "animation_frames (set_timeout d s) = animation_frames s" "status (set_timeout d s) = status s"
  "pause_enabled (set_timeout d s) = pause_enabled s"
  "blank_image (set_timeout d s) = blank_image s" "answer_image (set_timeout d s) = answer_image s"
  by (simp_all add: set_timeout_def)




subsection \<open>The invariant\<close>













subsection \<open>Refinement\<close>












end
