(* ===== verification/Reveal.thy ===== *)
theory Reveal
  imports Animator
begin

text \<open>
  The monotonic-reveal property of spec section 8 for src/script.js, end to end: the
  differ (theory \<open>Pixel_Differ\<close>), the segmenter, the sequencer and the scheduler
  composed through \<open>processImages\<close> and \<open>startAnimation\<close>.  The frames' pixels have
  pairwise distinct coordinates, lie on the canvas and carry the answer page's colour
  at their point; so after each tick the canvas shows the answer page exactly on the
  points of the frames revealed so far and the canvas before Play everywhere else.
\<close>

subsection \<open>Writing pixels with distinct coordinates\<close>

lemma fold_put_pixel_distinct:
  assumes "distinct (map (\<lambda>p. (px_x p, px_y p)) ps)"
    and "\<forall>p \<in> set ps. px_x p < w \<and> px_y p < h \<and> colour p = c' (px_x p, px_y p)"
  shows "fold (put_pixel w h) ps c (x, y) =
           (if (x, y) \<in> (\<lambda>p. (px_x p, px_y p)) ` set ps then c' (x, y) else c (x, y))"
proof (cases "(x, y) \<in> (\<lambda>p. (px_x p, px_y p)) ` set ps")
  case True
  then obtain p where p: "p \<in> set ps" and xy: "(x, y) = (px_x p, px_y p)" by blast
  from assms(2) p have "px_x p < w" "px_y p < h" and c: "colour p = c' (px_x p, px_y p)" by simp_all
  from fold_put_pixel_hit [OF assms(1) p this(1,2)] c xy True show ?thesis by simp
next
  case False
  then show ?thesis by (simp add: fold_put_pixel_miss)
qed

lemma fold_draw_frame: "fold (draw_frame w h) fs c = fold (put_pixel w h) (concat (map fr_pixels fs)) c"
  by (induction fs arbitrary: c) (simp_all add: draw_frame_def)

lemma mset_concat_image: "mset (concat xs) = sum_mset (image_mset mset (mset xs))"
  by (induction xs) simp_all

lemma mset_concat_perm: "mset xs = mset ys \<Longrightarrow> mset (concat xs) = mset (concat ys)"
  by (simp add: mset_concat_image)

lemma distinct_map_perm: "mset xs = mset ys \<Longrightarrow> distinct (map f xs) = distinct (map f ys)"
  by (metis mset_map mset_eq_imp_distinct_iff)

lemma distinct_concat_take:
  assumes "distinct (map f (concat xs))"
  shows "distinct (map f (concat (take k xs)))"
proof -
  from assms have "distinct (map f (concat (take k xs) @ concat (drop k xs)))"
    by (metis append_take_drop_id concat_append)
  then show ?thesis by simp
qed

subsection \<open>The frames of a processing run\<close>

lemma pixel_key_coords:
  "distinct (map pixel_key ps) \<Longrightarrow> distinct (map (\<lambda>p. (px_x p, px_y p)) ps)"
  by (induction ps) (auto simp: pixel_key_def)

text \<open>The pixels of all frames generated from a difference list: distinct coordinates, and
  each one of the differences.\<close>

lemma generate_animation_frames_pixels_facts:
  shows "distinct (map (\<lambda>p. (px_x p, px_y p)) (concat (map fr_pixels (generate_animation_frames w h ds))))"
    and "set (concat (map fr_pixels (generate_animation_frames w h ds))) \<subseteq> set ds"
proof -
  let ?cs = "find_connected_components w h ds"
  have m: "mset (concat (map fr_pixels (generate_animation_frames w h ds))) = mset (concat ?cs)"
    by (rule mset_concat_perm) (simp add: generate_animation_frames_pixels sort_characters_def)
  have "distinct (map pixel_key (concat ?cs))"
    unfolding find_connected_components_eq
    by (rule distinct_concat_filter) (rule segment_traversals_facts(1))
  then have "distinct (map (\<lambda>p. (px_x p, px_y p)) (concat ?cs))" by (rule pixel_key_coords)
  moreover have "distinct (map (\<lambda>p. (px_x p, px_y p)) (concat (map fr_pixels (generate_animation_frames w h ds))))
      = distinct (map (\<lambda>p. (px_x p, px_y p)) (concat ?cs))"
    by (rule distinct_map_perm [OF m])
  ultimately show
    "distinct (map (\<lambda>p. (px_x p, px_y p)) (concat (map fr_pixels (generate_animation_frames w h ds))))"
    by blast
  have "set (concat ?cs) \<subseteq> set ds"
    using segment_traversals_facts(2) [of w h ds] by (auto simp: find_connected_components_eq)
  moreover from arg_cong [OF m, of set_mset]
  have "set (concat (map fr_pixels (generate_animation_frames w h ds))) = set (concat ?cs)" by simp
  ultimately show "set (concat (map fr_pixels (generate_animation_frames w h ds))) \<subseteq> set ds" by simp
qed


lemma process_images_succeeded:
  assumes "blank_image s = Some b" and "answer_image s = Some a"
    and "status (process_images s) = (MsgProcessed, Success)"
  shows "process_images s =
    s\<lparr>process_enabled := False,
      difference_data := calculate_differences (canvas_w s)
        (image_data (draw_image (canvas_w s) (canvas_h s) b) (canvas_w s) (canvas_h s))
        (image_data (draw_image (canvas_w s) (canvas_h s) a) (canvas_w s) (canvas_h s)),
      animation_frames := generate_animation_frames (canvas_w s) (canvas_h s)
        (calculate_differences (canvas_w s)
          (image_data (draw_image (canvas_w s) (canvas_h s) b) (canvas_w s) (canvas_h s))
          (image_data (draw_image (canvas_w s) (canvas_h s) a) (canvas_w s) (canvas_h s))),
      play_enabled := True, reset_enabled := True, status := (MsgProcessed, Success)\<rparr>"
proof -
  let ?D = "calculate_differences (canvas_w s)
        (image_data (draw_image (canvas_w s) (canvas_h s) b) (canvas_w s) (canvas_h s))
        (image_data (draw_image (canvas_w s) (canvas_h s) a) (canvas_w s) (canvas_h s))"
  note eq = process_images_data [OF assms(1,2), unfolded Let_def]
  show ?thesis
  proof (cases "?D = []")
    case True
    with assms(3) eq show ?thesis by (simp add: process_failed_def update_status_def)
  next
    case False
    show ?thesis
    proof (cases "generate_animation_frames (canvas_w s) (canvas_h s) ?D = []")
      case True
      with False assms(3) eq show ?thesis by (simp add: process_failed_def update_status_def)
    next
      case nonempty: False
      with False eq show ?thesis by (simp add: update_status_def)
    qed
  qed
qed

subsection \<open>Monotonic reveal\<close>

text \<open>C12. Monotonic reveal (spec section 8): after a successful processing run and Play
  from frame 0, tick \<open>k\<close> leaves the canvas showing the answer page exactly on the
  points of the first \<open>k + 1\<close> frames and the canvas before Play everywhere else; as
  \<open>k\<close> grows the revealed points only grow, and no point is written twice.\<close>

theorem reveal_monotonic:
  assumes "blank_image s = Some b" and "answer_image s = Some a"
    and "current_frame s = 0" and "timers s = []"
    and "status (process_images s) = (MsgProcessed, Success)"
    and "k < length (animation_frames (process_images s))"
  shows "canvas ((fire_timer 0 ^^ k) (start_animation (process_images s))) (x, y) =
           (if (x, y) \<in> (\<lambda>p. (px_x p, px_y p)) `
                         set (concat (take (Suc k) (map fr_pixels (animation_frames (process_images s)))))
            then draw_image (canvas_w s) (canvas_h s) a (x, y) else canvas s (x, y))"
proof -
  let ?W = "canvas_w s" and ?H = "canvas_h s"
  let ?c1 = "draw_image ?W ?H b" and ?c2 = "draw_image ?W ?H a"
  let ?D = "calculate_differences ?W (image_data ?c1 ?W ?H) (image_data ?c2 ?W ?H)"
  let ?F = "generate_animation_frames ?W ?H ?D"
  let ?ps = "concat (take (Suc k) (map fr_pixels ?F))"
  note s' = process_images_succeeded [OF assms(1,2,5)]
  have c: "current_frame (process_images s) = 0" "timers (process_images s) = []"
    using assms(3,4) by (simp_all add: s')
  from playback_prefix [OF refl c assms(6)]
  have cv: "canvas ((fire_timer 0 ^^ k) (start_animation (process_images s))) =
          fold (put_pixel ?W ?H) ?ps (canvas s)"
    by (simp add: revealed_state_def s' fold_draw_frame take_map)
  have d: "distinct (map (\<lambda>p. (px_x p, px_y p)) ?ps)"
    using generate_animation_frames_pixels_facts(1) [of ?W ?H ?D]
    by (simp add: distinct_concat_take flip: take_map)
  have all: "\<forall>p \<in> set ?ps. px_x p < ?W \<and> px_y p < ?H \<and> colour p = ?c2 (px_x p, px_y p)"
  proof
    fix p assume "p \<in> set ?ps"
    then obtain c where "c \<in> set (take (Suc k) (map fr_pixels ?F))" and "p \<in> set c" by auto
    then have "c \<in> set (map fr_pixels ?F)" and "p \<in> set c" by (auto dest: in_set_takeD)
    then have "p \<in> set (concat (map fr_pixels ?F))" by (metis UN_I set_concat)
    then have "p \<in> set ?D" using generate_animation_frames_pixels_facts(2) by blast
    then show "px_x p < ?W \<and> px_y p < ?H \<and> colour p = ?c2 (px_x p, px_y p)"
      by (auto simp: set_calculate_differences_rasters)
  qed
  have fr: "animation_frames (process_images s) = ?F" by (simp add: s')
  show ?thesis unfolding cv fr by (rule fold_put_pixel_distinct [OF d all])
qed

end
