(* ===== verification/V1_Animator.thy ===== *)
theory V1_Animator
  imports Animator
begin

text \<open>
  The first version of the program, src/script_v1.js.  Its \<open>AnswerAnimator\<close> has the
  same handlers as the second version except in four places, and the model follows
  it line by line:
  \<^item> \<open>generateAnimationFrames\<close> (lines 172--193) does not segment: it sorts the
    difference pixels in place by a comparator on their coordinates (same row when
    the \<open>y\<close> differ by less than 10) and cuts the sorted list into slices of
    \<open>groupSize = max(1, floor(n / 100))\<close> pixels, "about 100 frames".  The \<open>for\<close>
    loop advances by \<open>groupSize\<close>; it ends only because \<open>groupSize \<ge> 1\<close>, so it is a
    \<open>partial_function (option)\<close>, \<open>None\<close> being the loop that never ends, and its
    termination is a theorem;
  \<^item> \<open>processImages\<close> (lines 97--140) checks nothing: a missing image makes
    \<open>drawImage(null)\<close> throw into the catch block, and an empty difference list or
    frame list is reported as success;
  \<^item> \<open>animateFrame\<close> (lines 205--234) draws a frame's pixels and always waits
    \<open>animationSpeed\<close>; there is no transition speed;
  \<^item> \<open>completeAnimation\<close> (lines 264--271) leaves the canvas as the frames left it.
  The state is the record \<open>animator_v1\<close>, with the fields of the class prefixed by
  \<open>v1_\<close>; images, canvas, pixels, timers and events are those of the second version.
\<close>

datatype status_v1 =
  V1BlankLoaded | V1AnswerLoaded | V1Ready | V1Processing | V1Processed | V1Failed | V1Reset
  | V1Complete

record animator_v1 =
  v1_blank_image :: "image option"
  v1_answer_image :: "image option"
  v1_canvas_w :: nat
  v1_canvas_h :: nat
  v1_canvas :: raster
  v1_difference_data :: "pixel list"
  v1_animation_frames :: "pixel list list"
  v1_current_frame :: nat
  v1_is_animating :: bool
  v1_animation_speed :: int
  v1_animation_timer :: "nat option"
  v1_timers :: "(nat \<times> int) list"
  v1_next_timer_id :: nat
  v1_process_enabled :: bool
  v1_play_enabled :: bool
  v1_pause_enabled :: bool
  v1_reset_enabled :: bool
  v1_progress :: rat
  v1_status :: "status_v1 \<times> severity"

definition init_animator_v1 :: animator_v1 where
  "init_animator_v1 =
     \<lparr>v1_blank_image = None, v1_answer_image = None, v1_canvas_w = 0, v1_canvas_h = 0,
      v1_canvas = cleared, v1_difference_data = [], v1_animation_frames = [], v1_current_frame = 0,
      v1_is_animating = False, v1_animation_speed = 14, v1_animation_timer = None, v1_timers = [],
      v1_next_timer_id = 1, v1_process_enabled = False, v1_play_enabled = False,
      v1_pause_enabled = False, v1_reset_enabled = False, v1_progress = 0,
      v1_status = (V1BlankLoaded, Info)\<rparr>"

definition update_status_v1 :: "status_v1 \<Rightarrow> severity \<Rightarrow> animator_v1 \<Rightarrow> animator_v1" where
  "update_status_v1 msg sev s = s\<lparr>v1_status := (msg, sev)\<rparr>"

definition set_speed_v1 :: "int \<Rightarrow> animator_v1 \<Rightarrow> animator_v1" where
  "set_speed_v1 speed s = s\<lparr>v1_animation_speed := 50 - speed * 4\<rparr>"

definition setup_canvas_v1 :: "animator_v1 \<Rightarrow> animator_v1" where
  "setup_canvas_v1 s =
     (case (v1_blank_image s, v1_answer_image s) of
        (Some b, Some a) \<Rightarrow>
          let width = max (img_w b) (img_w a); height = max (img_h b) (img_h a)
          in s\<lparr>v1_canvas_w := width, v1_canvas_h := height, v1_canvas := draw_image width height b\<rparr>
      | _ \<Rightarrow> s)"

definition check_images_ready_v1 :: "animator_v1 \<Rightarrow> animator_v1" where
  "check_images_ready_v1 s =
     (if v1_blank_image s \<noteq> None \<and> v1_answer_image s \<noteq> None
      then setup_canvas_v1 (update_status_v1 V1Ready Success (s\<lparr>v1_process_enabled := True\<rparr>))
      else s)"

definition load_image_v1 :: "image_kind \<Rightarrow> image \<Rightarrow> animator_v1 \<Rightarrow> animator_v1" where
  "load_image_v1 kind img s =
     check_images_ready_v1
       (case kind of
          Blank \<Rightarrow> update_status_v1 V1BlankLoaded Info (s\<lparr>v1_blank_image := Some img\<rparr>)
        | Answer \<Rightarrow> update_status_v1 V1AnswerLoaded Info (s\<lparr>v1_answer_image := Some img\<rparr>))"

subsection \<open>The chunking frame generator\<close>

text \<open>The comparator of \<open>this.differenceData.sort\<close>.\<close>

definition compare_pixels :: "pixel \<Rightarrow> pixel \<Rightarrow> rat" where
  [model_defs]: "compare_pixels a b =
     (if \<bar>of_nat (px_y a) - of_nat (px_y b)\<bar> < (10 :: rat) then of_nat (px_x a) - of_nat (px_x b)
      else of_nat (px_y a) - of_nat (px_y b))"

definition group_size :: "nat \<Rightarrow> nat" where
  [model_defs]: "group_size n = max 1 (n div 100)"

text \<open>\<open>for (let i = 0; i < n; i += groupSize) frames.push(data.slice(i, i + groupSize))\<close>.\<close>

partial_function (option) chunk_loop ::
  "nat \<Rightarrow> pixel list \<Rightarrow> nat \<Rightarrow> pixel list list \<Rightarrow> pixel list list option" where
  "chunk_loop groupSize differenceData i animationFrames =
     (if i < length differenceData
      then chunk_loop groupSize differenceData (i + groupSize)
             (animationFrames @ [take groupSize (drop i differenceData)])
      else Some animationFrames)"

text \<open>The generator returns the sorted difference list (the sort is in place) and the
  frames.\<close>

definition generate_animation_frames_v1 :: "pixel list \<Rightarrow> (pixel list \<times> pixel list list) option" where
  "generate_animation_frames_v1 differenceData =
     (let sorted = sort_by compare_pixels differenceData
      in map_option (\<lambda>frames. (sorted, frames)) (chunk_loop (group_size (length sorted)) sorted 0 []))"

text \<open>The reference: consecutive slices of \<open>Suc n\<close> elements.\<close>

fun chunks :: "nat \<Rightarrow> 'a list \<Rightarrow> 'a list list" where
  "chunks n [] = []"
| "chunks n (x # xs) = (x # take n xs) # chunks n (drop n xs)"

subsection \<open>Processing and playback\<close>

definition process_failed_v1 :: "animator_v1 \<Rightarrow> animator_v1" where
  "process_failed_v1 s = update_status_v1 V1Failed Info (s\<lparr>v1_process_enabled := True\<rparr>)"

text \<open>\<open>None\<close>: the handler does not return.\<close>

definition process_images_v1 :: "animator_v1 \<Rightarrow> animator_v1 option" where
  "process_images_v1 s0 =
     (let s = s0\<lparr>v1_process_enabled := False, v1_status := (V1Processing, Info)\<rparr>
      in case (v1_blank_image s, v1_answer_image s) of
           (Some b, Some a) \<Rightarrow>
             let width = v1_canvas_w s; height = v1_canvas_h s;
                 blankData = image_data (draw_image width height b) width height;
                 answerData = image_data (draw_image width height a) width height
             in map_option (\<lambda>(sorted, frames).
                  update_status_v1 V1Processed Success
                    (s\<lparr>v1_difference_data := sorted, v1_animation_frames := frames,
                       v1_play_enabled := True, v1_reset_enabled := True\<rparr>))
                  (generate_animation_frames_v1 (calculate_differences width blankData answerData))
         | _ \<Rightarrow> Some (process_failed_v1 s))"

definition set_timeout_v1 :: "int \<Rightarrow> animator_v1 \<Rightarrow> animator_v1" where
  "set_timeout_v1 delay s =
     s\<lparr>v1_timers := v1_timers s @ [(v1_next_timer_id s, delay)],
       v1_animation_timer := Some (v1_next_timer_id s), v1_next_timer_id := Suc (v1_next_timer_id s)\<rparr>"

definition complete_animation_v1 :: "animator_v1 \<Rightarrow> animator_v1" where
  "complete_animation_v1 s =
     update_status_v1 V1Complete Success
       (s\<lparr>v1_is_animating := False, v1_play_enabled := True, v1_pause_enabled := False,
          v1_progress := 100\<rparr>)"

definition animate_frame_v1 :: "animator_v1 \<Rightarrow> animator_v1" where
  "animate_frame_v1 s =
     (if \<not> v1_is_animating s \<or> length (v1_animation_frames s) \<le> v1_current_frame s
      then complete_animation_v1 s
      else let frame = v1_animation_frames s ! v1_current_frame s
           in set_timeout_v1 (v1_animation_speed s)
                (s\<lparr>v1_canvas := fold (put_pixel (v1_canvas_w s) (v1_canvas_h s)) frame (v1_canvas s),
                   v1_progress := of_nat (v1_current_frame s + 1) / of_nat (length (v1_animation_frames s)) * 100,
                   v1_current_frame := Suc (v1_current_frame s)\<rparr>))"

definition start_animation_v1 :: "animator_v1 \<Rightarrow> animator_v1" where
  "start_animation_v1 s =
     (if v1_animation_frames s = [] then s
      else animate_frame_v1 (s\<lparr>v1_is_animating := True, v1_play_enabled := False, v1_pause_enabled := True\<rparr>))"

definition pause_animation_v1 :: "animator_v1 \<Rightarrow> animator_v1" where
  "pause_animation_v1 s0 =
     (let s = s0\<lparr>v1_is_animating := False\<rparr>;
          s1 = (case v1_animation_timer s of
                  Some t \<Rightarrow> s\<lparr>v1_timers := filter (\<lambda>(i, d). i \<noteq> t) (v1_timers s), v1_animation_timer := None\<rparr>
                | None \<Rightarrow> s)
      in s1\<lparr>v1_play_enabled := True, v1_pause_enabled := False\<rparr>)"

definition reset_animation_v1 :: "animator_v1 \<Rightarrow> animator_v1" where
  "reset_animation_v1 s0 =
     (let s = (pause_animation_v1 s0)\<lparr>v1_current_frame := 0\<rparr>
      in case v1_blank_image s of
           Some b \<Rightarrow> update_status_v1 V1Reset Info
                      (s\<lparr>v1_canvas := draw_image (v1_canvas_w s) (v1_canvas_h s) b, v1_progress := 0,
                         v1_play_enabled := True, v1_reset_enabled := True\<rparr>)
         | None \<Rightarrow> s\<lparr>v1_canvas := cleared\<rparr>)"

definition fire_timer_v1 :: "nat \<Rightarrow> animator_v1 \<Rightarrow> animator_v1" where
  "fire_timer_v1 i s = animate_frame_v1 (s\<lparr>v1_timers := take i (v1_timers s) @ drop (Suc i) (v1_timers s)\<rparr>)"

fun step_v1 :: "animator_v1 \<Rightarrow> event \<Rightarrow> animator_v1 option" where
  "step_v1 s (LoadImage kind img) = Some (load_image_v1 kind img s)"
| "step_v1 s ClickProcess = (if v1_process_enabled s then process_images_v1 s else None)"
| "step_v1 s ClickPlay = (if v1_play_enabled s then Some (start_animation_v1 s) else None)"
| "step_v1 s ClickPause = (if v1_pause_enabled s then Some (pause_animation_v1 s) else None)"
| "step_v1 s ClickReset = (if v1_reset_enabled s then Some (reset_animation_v1 s) else None)"
| "step_v1 s (SpeedInput v) = Some (set_speed_v1 v s)"
| "step_v1 s (TimerFires i) = (if i < length (v1_timers s) then Some (fire_timer_v1 i s) else None)"

fun run_v1 :: "animator_v1 \<Rightarrow> event list \<Rightarrow> animator_v1 option" where
  "run_v1 s [] = Some s"
| "run_v1 s (e # es) = (case step_v1 s e of None \<Rightarrow> None | Some s' \<Rightarrow> run_v1 s' es)"


text \<open>The state after \<open>k\<close> revealed frames of a playback started from \<open>s\<close>.\<close>

definition revealed_state_v1 :: "animator_v1 \<Rightarrow> nat \<Rightarrow> animator_v1" where
  "revealed_state_v1 s k =
     s\<lparr>v1_is_animating := True, v1_play_enabled := False, v1_pause_enabled := True,
       v1_canvas := fold (put_pixel (v1_canvas_w s) (v1_canvas_h s)) (concat (take k (v1_animation_frames s))) (v1_canvas s),
       v1_progress := of_nat k / of_nat (length (v1_animation_frames s)) * 100,
       v1_current_frame := k,
       v1_timers := [(v1_next_timer_id s + (k - 1), v1_animation_speed s)],
       v1_animation_timer := Some (v1_next_timer_id s + (k - 1)),
       v1_next_timer_id := v1_next_timer_id s + k\<rparr>"

subsection \<open>The chunking loop\<close>

lemma chunks_step: "ys \<noteq> [] \<Longrightarrow> chunks n ys = take (Suc n) ys # chunks n (drop (Suc n) ys)"
  by (cases ys) simp_all

lemma chunk_loop_chunks:
  "chunk_loop (Suc n) ds i acc = Some (acc @ chunks n (drop i ds))"
proof (induction "length ds - i" arbitrary: i acc rule: less_induct)
  case less
  show ?case
  proof (cases "i < length ds")
    case True
    then have "length ds - (i + Suc n) < length ds - i" by simp
    then have IH: "chunk_loop (Suc n) ds (i + Suc n) (acc @ [take (Suc n) (drop i ds)]) =
        Some ((acc @ [take (Suc n) (drop i ds)]) @ chunks n (drop (i + Suc n) ds))"
      by (rule less)
    from True have "chunks n (drop i ds) = take (Suc n) (drop i ds) # chunks n (drop (i + Suc n) ds)"
      by (simp add: chunks_step add.commute)
    with True IH show ?thesis by (subst chunk_loop.simps) simp
  next
    case False
    then show ?thesis by (subst chunk_loop.simps) simp
  qed
qed

lemma chunk_loop_zero_None:
  assumes "chunk_loop groupSize ds i acc = Some r" and "groupSize = 0"
  shows "length ds \<le> i"
proof -
  have "groupSize = 0 \<longrightarrow> length ds \<le> i"
  proof (rule chunk_loop.raw_induct [where P = "\<lambda>g ds i acc r. g = 0 \<longrightarrow> length ds \<le> i",
        OF _ assms(1)])
    fix f g ds i acc r
    assume IH: "\<And>g ds i acc r. f g ds i acc = Some r \<Longrightarrow> g = 0 \<longrightarrow> length ds \<le> i"
      and eq: "(if i < length ds then f g ds (i + g) (acc @ [take g (drop i ds)]) else Some acc) = Some r"
    show "g = 0 \<longrightarrow> length ds \<le> i"
    proof (cases "i < length ds")
      case True
      with eq have "f g ds (i + g) (acc @ [take g (drop i ds)]) = Some r" by simp
      from IH [OF this] show ?thesis by simp
    next
      case False
      then show ?thesis by simp
    qed
  qed
  with assms(2) show ?thesis by simp
qed

lemma concat_chunks [simp]: "concat (chunks n xs) = xs"
  by (induction n xs rule: chunks.induct) simp_all

lemma chunks_members: "c \<in> set (chunks n xs) \<Longrightarrow> c \<noteq> [] \<and> length c \<le> Suc n"
  by (induction n xs rule: chunks.induct) auto

lemma chunks_full: "i + 1 < length (chunks n xs) \<Longrightarrow> length (chunks n xs ! i) = Suc n"
proof (induction n xs arbitrary: i rule: chunks.induct)
  case (1 n)
  then show ?case by simp
next
  case (2 n x xs)
  show ?case
  proof (cases i)
    case 0
    with "2.prems" have "drop n xs \<noteq> []" by (cases "drop n xs") simp_all
    with 0 show ?thesis by simp
  next
    case (Suc j)
    with "2.prems" have "j + 1 < length (chunks n (drop n xs))" by simp
    from "2.IH" [OF this] Suc show ?thesis by simp
  qed
qed

lemma length_chunks: "length (chunks n xs) = (length xs + n) div Suc n"
proof (induction n xs rule: chunks.induct)
  case (1 n)
  then show ?case by simp
next
  case (2 n x xs)
  show ?case
  proof (cases "n \<le> length xs")
    case True
    with 2 have "length (chunks n (x # xs)) = Suc (length xs div Suc n)" by simp
    also have "\<dots> = (length xs + Suc n) div Suc n" using div_add_self2 [of "Suc n" "length xs"] by linarith
    finally show ?thesis by simp
  next
    case False
    then have "(Suc (length xs) + n) div Suc n = 1"
      by (intro div_nat_eqI) simp_all
    with 2 False show ?thesis by simp
  qed
qed


lemma group_size_Suc: "group_size n = Suc (group_size n - 1)"
  by (simp add: group_size_def)

lemma generate_animation_frames_v1_eq:
  "generate_animation_frames_v1 ds =
     Some (sort_by compare_pixels ds, chunks (group_size (length ds) - 1) (sort_by compare_pixels ds))"
proof -
  obtain m where m: "group_size (length ds) = Suc m" by (meson group_size_Suc)
  show ?thesis by (simp add: generate_animation_frames_v1_def m chunk_loop_chunks Let_def)
qed

lemma frame_count_bounds:
  assumes "100 \<le> n"
  shows "100 \<le> (n + group_size n - 1) div group_size n" and "(n + group_size n - 1) div group_size n < 200"
proof -
  let ?g = "n div 100"
  from assms have g: "group_size n = ?g" and pos: "0 < ?g" by (simp_all add: group_size_def)
  have "100 * ?g \<le> n" by simp
  then have "100 * ?g \<le> n + ?g - 1" by simp
  then have "(100 * ?g) div ?g \<le> (n + ?g - 1) div ?g" by (rule div_le_mono)
  with pos g show "100 \<le> (n + group_size n - 1) div group_size n" by simp
  have "n < 100 * ?g + 100" by simp
  with pos have "n + ?g - 1 < 200 * ?g" by simp
  with pos g show "(n + group_size n - 1) div group_size n < 200" by (simp add: div_less_iff_less_mult)
qed


subsection \<open>Properties of the chunking generator\<close>

text \<open>C20. The \<open>for\<close> loop of the chunking generator ends exactly when its step is
  positive or it starts past the end: with \<open>groupSize = 0\<close> and pixels left it runs
  forever.\<close>

theorem chunk_loop_terminates_iff:
  "chunk_loop groupSize differenceData i animationFrames \<noteq> None \<longleftrightarrow>
     0 < groupSize \<or> length differenceData \<le> i"
proof
  assume "chunk_loop groupSize differenceData i animationFrames \<noteq> None"
  then obtain r where "chunk_loop groupSize differenceData i animationFrames = Some r" by blast
  then show "0 < groupSize \<or> length differenceData \<le> i"
    using chunk_loop_zero_None by blast
next
  assume "0 < groupSize \<or> length differenceData \<le> i"
  then show "chunk_loop groupSize differenceData i animationFrames \<noteq> None"
  proof
    assume "0 < groupSize"
    then obtain m where "groupSize = Suc m" using gr0_implies_Suc by blast
    then show ?thesis by (simp add: chunk_loop_chunks)
  next
    assume "length differenceData \<le> i"
    then show ?thesis by (subst chunk_loop.simps) simp
  qed
qed

text \<open>C21. The generator returns for every difference list: \<open>groupSize\<close> is at least 1.\<close>

theorem generate_animation_frames_v1_terminates:
  "generate_animation_frames_v1 differenceData \<noteq> None"
  by (simp add: generate_animation_frames_v1_eq)

text \<open>C22. Round trip: the frames, concatenated, give back the sorted difference list,
  which is a permutation of the input; no pixel is lost or repeated.\<close>

theorem frames_v1_roundtrip:
  assumes "generate_animation_frames_v1 differenceData = Some (sortedData, frames)"
  shows "concat frames = sortedData \<and> mset sortedData = mset differenceData"
  using assms by (auto simp: generate_animation_frames_v1_eq)

text \<open>C24. Frame sizes: every frame is non-empty with at most \<open>groupSize\<close> pixels, and
  every frame but the last has exactly \<open>groupSize\<close>.\<close>

theorem frames_v1_sizes:
  assumes "generate_animation_frames_v1 differenceData = Some (sortedData, frames)"
  shows "(\<forall>f \<in> set frames. f \<noteq> [] \<and> length f \<le> group_size (length differenceData))
         \<and> (\<forall>i. i + 1 < length frames \<longrightarrow> length (frames ! i) = group_size (length differenceData))"
proof -
  obtain m where m: "group_size (length differenceData) = Suc m" by (meson group_size_Suc)
  from assms m have f: "frames = chunks m (sort_by compare_pixels differenceData)"
    by (auto simp: generate_animation_frames_v1_eq)
  show ?thesis unfolding f m by (auto dest: chunks_members intro: chunks_full)
qed

text \<open>C23. "About 100 frames": fewer than 100 pixels give one frame per pixel, and from
  100 pixels on there are at least 100 and fewer than 200 frames.\<close>

theorem frames_v1_count:
  assumes "generate_animation_frames_v1 differenceData = Some (sortedData, frames)"
  shows "(length differenceData < 100 \<longrightarrow> length frames = length differenceData)
         \<and> (100 \<le> length differenceData \<longrightarrow> 100 \<le> length frames \<and> length frames < 200)"
proof -
  obtain m where m: "group_size (length differenceData) = Suc m" by (meson group_size_Suc)
  from assms m have "frames = chunks m (sort_by compare_pixels differenceData)"
    by (auto simp: generate_animation_frames_v1_eq)
  then have len: "length frames =
      (length differenceData + group_size (length differenceData) - 1) div group_size (length differenceData)"
    by (simp add: m length_chunks)
  have "length differenceData < 100 \<longrightarrow> length frames = length differenceData"
    by (simp add: len group_size_def)
  moreover have "100 \<le> length differenceData \<longrightarrow> 100 \<le> length frames \<and> length frames < 200"
    using frame_count_bounds len by simp
  ultimately show ?thesis by blast
qed


subsection \<open>Processing and playback in the first version\<close>

lemma process_images_v1_data:
  assumes "v1_blank_image s = Some b" and "v1_answer_image s = Some a"
  shows "process_images_v1 s =
    (let D = calculate_differences (v1_canvas_w s)
               (image_data (draw_image (v1_canvas_w s) (v1_canvas_h s) b) (v1_canvas_w s) (v1_canvas_h s))
               (image_data (draw_image (v1_canvas_w s) (v1_canvas_h s) a) (v1_canvas_w s) (v1_canvas_h s))
     in Some (s\<lparr>v1_process_enabled := False, v1_difference_data := sort_by compare_pixels D,
                v1_animation_frames := chunks (group_size (length D) - 1) (sort_by compare_pixels D),
                v1_play_enabled := True, v1_reset_enabled := True, v1_status := (V1Processed, Success)\<rparr>))"
  using assms by (simp add: process_images_v1_def generate_animation_frames_v1_eq update_status_v1_def Let_def)

lemma animate_frame_v1_running:
  assumes "v1_is_animating s" and "v1_current_frame s < length (v1_animation_frames s)"
  shows "animate_frame_v1 s =
    set_timeout_v1 (v1_animation_speed s)
      (s\<lparr>v1_canvas := fold (put_pixel (v1_canvas_w s) (v1_canvas_h s)) (v1_animation_frames s ! v1_current_frame s) (v1_canvas s),
         v1_progress := of_nat (v1_current_frame s + 1) / of_nat (length (v1_animation_frames s)) * 100,
         v1_current_frame := Suc (v1_current_frame s)\<rparr>)"
  using assms by (simp add: animate_frame_v1_def Let_def)

lemma fold_concat_take_Suc:
  "k < length xs \<Longrightarrow> fold f (concat (take (Suc k) xs)) c = fold f (xs ! k) (fold f (concat (take k xs)) c)"
  by (simp add: take_Suc_conv_app_nth)

lemma playback_prefix_v1:
  assumes "v1_current_frame s = 0" and "v1_timers s = []" and "k < length (v1_animation_frames s)"
  shows "(fire_timer_v1 0 ^^ k) (start_animation_v1 s) = revealed_state_v1 s (Suc k)"
  using assms(3)
proof (induction k)
  case 0
  then have "v1_animation_frames s \<noteq> []" by auto
  with assms(1,2) 0 show ?case
    by (simp add: start_animation_v1_def animate_frame_v1_running revealed_state_v1_def set_timeout_v1_def
        fold_concat_take_Suc [where k = 0])
next
  case (Suc k)
  then have IH: "(fire_timer_v1 0 ^^ k) (start_animation_v1 s) = revealed_state_v1 s (Suc k)" by simp
  have "fire_timer_v1 0 (revealed_state_v1 s (Suc k)) = revealed_state_v1 s (Suc (Suc k))"
    using Suc.prems
    by (simp add: fire_timer_v1_def revealed_state_v1_def animate_frame_v1_running set_timeout_v1_def
        fold_concat_take_Suc algebra_simps)
  with IH show ?case by simp
qed

lemma playback_completes_v1:
  assumes "v1_current_frame s = 0" and "v1_timers s = []" and "v1_animation_frames s \<noteq> []"
  shows "(fire_timer_v1 0 ^^ length (v1_animation_frames s)) (start_animation_v1 s) =
           complete_animation_v1 ((revealed_state_v1 s (length (v1_animation_frames s)))\<lparr>v1_timers := []\<rparr>)"
proof -
  let ?n = "length (v1_animation_frames s)"
  from assms(3) have "?n - 1 < ?n" by simp
  from playback_prefix_v1 [OF assms(1,2) this] assms(3)
  have "(fire_timer_v1 0 ^^ (?n - 1)) (start_animation_v1 s) = revealed_state_v1 s ?n" by simp
  with assms(3) show ?thesis
    by (simp add: funpow_length_pred fire_timer_v1_def animate_frame_v1_def revealed_state_v1_def)
qed


lemma distinct_coords_sort_by:
  "distinct (map (\<lambda>p. (px_x p, px_y p)) ds) \<Longrightarrow> distinct (map (\<lambda>p. (px_x p, px_y p)) (sort_by cmp ds))"
  by (metis distinct_map mset_sort_by set_sort_by distinct_count_atmost_1 count_mset)

text \<open>C19. End to end in the first version: after loading, processing, Play and one
  tick per frame, every point of the canvas where the two pages differ by more than the
  threshold shows the answer page's colour, every other point the blank page's, and
  the status reports completion; the answer image itself is never drawn.\<close>

theorem v1_playback_reveals_answer:
  assumes "v1_blank_image s = Some b" and "v1_answer_image s = Some a"
    and "v1_canvas s = draw_image (v1_canvas_w s) (v1_canvas_h s) b"
    and "v1_current_frame s = 0" and "v1_timers s = []"
    and "process_images_v1 s = Some s'" and "v1_animation_frames s' \<noteq> []"
    and "x < v1_canvas_w s" and "y < v1_canvas_h s"
  shows "v1_canvas ((fire_timer_v1 0 ^^ length (v1_animation_frames s')) (start_animation_v1 s')) (x, y) =
           (if diff_threshold < colour_distance (draw_image (v1_canvas_w s) (v1_canvas_h s) b (x, y))
                                   (draw_image (v1_canvas_w s) (v1_canvas_h s) a (x, y))
            then draw_image (v1_canvas_w s) (v1_canvas_h s) a (x, y)
            else draw_image (v1_canvas_w s) (v1_canvas_h s) b (x, y))
         \<and> v1_status ((fire_timer_v1 0 ^^ length (v1_animation_frames s')) (start_animation_v1 s')) =
             (V1Complete, Success)"
proof -
  let ?W = "v1_canvas_w s" and ?H = "v1_canvas_h s"
  let ?c1 = "draw_image ?W ?H b" and ?c2 = "draw_image ?W ?H a"
  let ?D = "calculate_differences ?W (image_data ?c1 ?W ?H) (image_data ?c2 ?W ?H)"
  let ?S = "sort_by compare_pixels ?D"
  obtain m where m: "group_size (length ?D) = Suc m" by (meson group_size_Suc)
  from assms(1,2,6) m have s': "s' = s\<lparr>v1_process_enabled := False, v1_difference_data := ?S,
        v1_animation_frames := chunks m ?S, v1_play_enabled := True, v1_reset_enabled := True,
        v1_status := (V1Processed, Success)\<rparr>"
    by (simp add: process_images_v1_data Let_def)
  have c: "v1_current_frame s' = 0" "v1_timers s' = []" using assms(4,5) s' by simp_all
  have fin: "(fire_timer_v1 0 ^^ length (v1_animation_frames s')) (start_animation_v1 s') =
      complete_animation_v1 ((revealed_state_v1 s' (length (v1_animation_frames s')))\<lparr>v1_timers := []\<rparr>)"
    by (rule playback_completes_v1 [OF c assms(7)])
  from assms(8) have "0 < ?W" by simp
  then have "distinct (map (\<lambda>p. (px_x p, px_y p)) ?S)"
    by (intro distinct_coords_sort_by calculate_differences_rasters_coords)
  from fold_put_pixel_differences [OF _ this assms(8,9), of ?c1 ?c2 ?c1]
  have "fold (put_pixel ?W ?H) ?S ?c1 (x, y) =
          (if diff_threshold < colour_distance (?c1 (x, y)) (?c2 (x, y)) then ?c2 (x, y) else ?c1 (x, y))"
    by simp
  with fin s' assms(3) show ?thesis
    by (simp add: revealed_state_v1_def complete_animation_v1_def update_status_v1_def)
qed

text \<open>C25. Identical pixel data in the first version: processing reports success with no
  difference and no frame, and enables Play and Reset; the spec's \<open>NoDifferenceError\<close>
  is never raised.\<close>

theorem process_images_v1_identical:
  assumes "v1_blank_image s = Some b" and "v1_answer_image s = Some a"
    and "image_data (draw_image (v1_canvas_w s) (v1_canvas_h s) a) (v1_canvas_w s) (v1_canvas_h s) =
         image_data (draw_image (v1_canvas_w s) (v1_canvas_h s) b) (v1_canvas_w s) (v1_canvas_h s)"
  shows "process_images_v1 s =
           Some (s\<lparr>v1_process_enabled := False, v1_difference_data := [], v1_animation_frames := [],
                   v1_play_enabled := True, v1_reset_enabled := True, v1_status := (V1Processed, Success)\<rparr>)"
  using assms by (simp add: process_images_v1_data calculate_differences_def diff_scan_self sort_by_def)

end
