(* ===== verification/Spec2Isabelle.thy ===== *)
theory Spec2Isabelle
  imports Playback_Spec Reveal V1_Animator
begin

text \<open>
  \<^bold>\<open>A verification library for the answer-reveal animator\<close>
  (repository Zhouqiannan123/loadingdemo).

  \<^bold>\<open>The program.\<close>  src/script.js defines one class, \<open>AnswerAnimator\<close>, bound to a
  page with two file inputs, four buttons, a speed slider, a progress bar and a canvas.
  After both images are loaded, \<open>processImages\<close> reads both as RGBA byte arrays and runs
  a pipeline of three pure stages, then \<open>startAnimation\<close> drives a timer loop:
  \<^item> the pixel differ \<open>calculateDifferences\<close> (lines 163--191) lists the pixels whose
    summed RGB distance exceeds 30, with the answer page's colour;
  \<^item> the segmenter \<open>findConnectedComponents\<close> (lines 245--337) groups them into
    8-connected components by an explicit-stack DFS over a shared visited set, stops a
    traversal after 50\,001 pixels, and drops components of at most five pixels;
  \<^item> the sequencer (\<open>generateAnimationFrames\<close>, \<open>getComponentCenter\<close>,
    \<open>isTransitionElement\<close>, lines 193--242 and 340--397) sorts the components into
    reading order by centroid and marks the "transition" ones;
  \<^item> the scheduler (\<open>startAnimation\<close>, \<open>animateFrame\<close>, \<open>pauseAnimation\<close>,
    \<open>resetAnimation\<close>, \<open>completeAnimation\<close>, lines 399--499) reveals one frame per
    timer tick, with a 1\,ms delay after transition frames and \<open>50 - 4 * speed\<close> ms after
    the others, and finally draws the whole answer page.
  src/script_v1.js is an earlier version of the same class whose \<open>generateAnimationFrames\<close>
  chunks the sorted pixel list into about 100 frames instead of segmenting it.

  \<^bold>\<open>The library.\<close>  Theories in import order; claim numbers in brackets.
  \<^item> \<open>Prelude\<close>: the types \<open>byte\<close> (\<open>8 word\<close>), \<open>rgba\<close>, \<open>coord\<close> (\<open>int \<times> int\<close>), the
    collections \<open>model_defs\<close> and \<open>frame_simps\<close>, and generic lemmas on lists, finite
    sets and row-major indices.
  \<^item> \<open>Pixel_Differ\<close>: the record \<open>pixel\<close>, \<open>channel_diff\<close>, the loop \<open>diff_scan\<close> as
    structural recursion over the two byte lists and \<open>calculate_differences\<close>; the
    index-based reference \<open>differences_from\<close>.  Claims: equivalence with the reference
    (C5), distinct coordinates (C7), bounds (C8), identical buffers (C9).
  \<^item> \<open>Segmenter\<close>: \<open>build_pixel_map\<close> (the \<open>Map\<close> as an association list, newest
    binding first), \<open>push_neighbours\<close>, the \<open>while\<close> loop \<open>dfs_loop\<close> as a \<open>function\<close>
    whose termination is proved with the measure (unvisited keys of the map, stack
    length), \<open>dfs\<close>, the \<open>forEach\<close> loop \<open>components_loop\<close>, \<open>find_connected_components\<close>
    and the reference \<open>traversals_loop\<close>.  Claims: partition (C1), connectivity (C2),
    filter equivalence (C3), size bounds (C4), disjointness (C6).
  \<^item> \<open>Sequencer\<close>: centroids as \<open>rat\<close>, the comparator \<open>compare_centers\<close>, the engine's
    sort as the stable insertion sort \<open>sort_by\<close>, \<open>is_transition_element\<close>, the record
    \<open>frame\<close>, \<open>generate_animation_frames\<close> and the predicate \<open>frame_wf\<close>.  Claims:
    permutation (C27), classification (C28), frame fields (C29), neighbours in
    comparator order (C38), separate lines sorted by \<open>y\<close> (C39).
  \<^item> \<open>Canvas\<close>: images, \<open>draw_image\<close>, \<open>image_data\<close> (getImageData), \<open>put_pixel\<close>
    (putImageData).  Claims: the differ on two canvases returns exactly the points
    beyond the threshold with the second canvas's colour (C17), and writing them back
    reproduces the second canvas there (C18).
  \<^item> \<open>Animator\<close>: the object's fields as the record \<open>animator\<close>, every handler as a
    function on it, \<open>setTimeout\<close>/\<open>clearTimeout\<close> as a queue of pending ticks, the page
    as the event step function \<open>step\<close>, \<open>run\<close> and the inductive \<open>reachable\<close>.  Lemmas:
    what each handler leaves unchanged, one tick, the invariant \<open>timer_inv\<close> preserved
    by every step except Process during an animation.  Claims: completion (C10), the
    state after each tick (C13), one pending tick (C14), pause and reset cancel it
    (C15), well-formed frames in every reachable state (C26), the processing outcomes
    (C32--C34), idempotent reset (C35), the delay mapping (C36), 1\,ms after transition
    frames (C37).
  \<^item> \<open>Playback_Spec\<close>: the state machine of spec section 4.4 (\<open>spec_step\<close> over a
    phase and an index), the abstraction \<open>abs_playback\<close>, the invariant \<open>sched_inv\<close>,
    and the refinement: every run of scheduler events is matched by a path of
    abstract transitions (C11).
  \<^item> \<open>V1_Animator\<close>: src/script_v1.js, the state \<open>animator_v1\<close> and its handlers, the
    row-band comparator \<open>compare_pixels\<close>, \<open>group_size\<close> and the chunking \<open>for\<close> loop
    \<open>chunk_loop\<close> as a \<open>partial_function (option)\<close> against the reference \<open>chunks\<close>.
    Claims: the final canvas matches the answer within the threshold (C19), the loop
    ends exactly when its step is positive (C20), the generator always returns (C21),
    round trip (C22), frame count (C23) and sizes (C24), identical images reported as
    success (C25).
  \<^item> \<open>Reveal\<close>: the pipeline of src/script.js end to end: the frames' pixels have
    distinct coordinates, lie on the canvas and carry the answer's colour, so each tick
    reveals the answer exactly on the frames played so far (C12).

  \<^bold>\<open>Correspondence and modelling choices.\<close>  JavaScript numbers used as pixel
  indices and coordinates are \<open>nat\<close>; the neighbour arithmetic, which can reach -1, is
  \<open>int\<close>; the key string \<open>"x,y"\<close> is the pair, an injective encoding.  The stack array
  is a list with its top at the head.  \<open>getImageData\<close> arrays have equal length, a
  multiple of four, on which the model and the loop agree exactly; other shapes end
  the scan.  The DFS needs no fuel: every iteration either pops the stack or visits a
  key of the finite map.  The playback needs none either: it is a sequence of events,
  and the claims count the ticks (one per frame, C10).  The only loop that could run
  forever is the chunking loop of the first version, whose step \<open>groupSize\<close> would be
  0 without its \<open>max(1, \<dots>)\<close>; it is a \<open>partial_function (option)\<close> and its
  termination is proved (C20, C21).  The canvas is a function from
  coordinates to colours; \<open>drawImage\<close> after \<open>clearRect\<close> copies the image where it
  covers the canvas and leaves the rest transparent; \<open>putImageData\<close> of a 1\<times>1 image
  writes one pixel.  \<open>processImages\<close> is declared \<open>async\<close> but never awaits, so it is
  one step.  Timer ids start at 1 (browsers return positive ids, so the test
  \<open>if (this.animationTimer)\<close> is the test for \<open>Some\<close>).

  \<^bold>\<open>Scenarios and witnesses.\<close>  The sections below evaluate the program on the
  scenarios of spec section 8: two 10\<times>10 pages that differ in one 3\<times>3 black block
  (the differ returns the nine block pixels by \<open>code_simp\<close>, the segmenter one
  component of nine pixels by \<open>simp\<close>), whole runs of events from the initial state
  (C30, C31), an answer page with two blocks on which Process during a playback
  leaves two ticks pending (C16), and the first version processing and playing the
  one-block scenario.  Every claim with a hypothesis is applied to one of
  these inputs.

  \<^bold>\<open>Findings.\<close>  Loading an image re-enables Process during a playback, and a
  second Play then schedules a second tick that Pause does not cancel (C16, against
  spec section 5); \<open>processImages\<close> does not reset \<open>currentFrame\<close> (C32); a failed
  processing overwrites the difference list but keeps Play enabled for the previous
  frames (C33); a cluster above 50\,001 pixels is split into several components (C4);
  the comparator is not transitive (C40); the first version reports identical images
  as a success (C25) and never draws the answer image (C19).

  \<^bold>\<open>Not modelled.\<close>  File loading (\<open>FileReader\<close>, \<open>Image\<close> decoding), listener
  registration, console output and the status texts are I/O without algorithmic
  content: a decoded image is an argument of \<open>load_image\<close> and a status is a message
  constructor.  Both files are otherwise modelled; the first version's
  \<open>calculateDifferences\<close> and canvas calls are the same code as the second's and use
  the same definitions.
\<close>

section \<open>The scenario of spec section 8\<close>

text \<open>A white 10\<times>10 page and the same page with a black 3\<times>3 block at (3..5, 3..5),
  as the flat RGBA arrays \<open>getImageData\<close> returns.\<close>

definition blank10 :: "byte list" where
  "blank10 = replicate 400 255"

definition answer10 :: "byte list" where
  "answer10 = concat (map (\<lambda>k. if 3 \<le> k mod 10 \<and> k mod 10 < 6 \<and> 3 \<le> k div 10 \<and> k div 10 < 6
                                then [0, 0, 0, 255] else [255, 255, 255, 255]) [0..<100])"

definition ink :: "nat \<Rightarrow> nat \<Rightarrow> pixel" where
  "ink x y = \<lparr>px_x = x, px_y = y, px_r = 0, px_g = 0, px_b = 0, px_a = 255\<rparr>"

definition block_pixels :: "pixel list" where
  "block_pixels = [ink 3 3, ink 4 3, ink 5 3, ink 3 4, ink 4 4, ink 5 4, ink 3 5, ink 4 5, ink 5 5]"

text \<open>The block in the order the traversal from (3,3) pops it.\<close>

definition block_component :: "pixel list" where
  "block_component = [ink 3 3, ink 4 4, ink 5 5, ink 5 4, ink 5 3, ink 4 3, ink 3 4, ink 4 5, ink 3 5]"


text \<open>The same pages as images, and a second answer page with two 3\<times>3 blocks at
  (1..3, 1..3) and (6..8, 6..8).\<close>

definition white :: rgba where
  "white = (255, 255, 255, 255)"

definition black :: rgba where
  "black = (0, 0, 0, 255)"

definition blank_img :: image where
  "blank_img = \<lparr>img_w = 10, img_h = 10, img_px = (\<lambda>x y. white)\<rparr>"

definition answer_img :: image where
  "answer_img = \<lparr>img_w = 10, img_h = 10,
     img_px = (\<lambda>x y. if 3 \<le> x \<and> x < 6 \<and> 3 \<le> y \<and> y < 6 then black else white)\<rparr>"

definition two_img :: image where
  "two_img = \<lparr>img_w = 10, img_h = 10,
     img_px = (\<lambda>x y. if (1 \<le> x \<and> x < 4 \<and> 1 \<le> y \<and> y < 4) \<or> (6 \<le> x \<and> x < 9 \<and> 6 \<le> y \<and> y < 9)
                     then black else white)\<rparr>"

definition two10 :: "byte list" where
  "two10 = concat (map (\<lambda>k. if (1 \<le> k mod 10 \<and> k mod 10 < 4 \<and> 1 \<le> k div 10 \<and> k div 10 < 4)
                                \<or> (6 \<le> k mod 10 \<and> k mod 10 < 9 \<and> 6 \<le> k div 10 \<and> k div 10 < 9)
                             then [0, 0, 0, 255] else [255, 255, 255, 255]) [0..<100])"

definition block_frame :: frame where
  "block_frame = \<lparr>fr_pixels = block_component, fr_center = (4, 4), fr_is_transition = True, fr_size = 9\<rparr>"

definition two_pixels :: "pixel list" where
  "two_pixels = [ink 1 1, ink 2 1, ink 3 1, ink 1 2, ink 2 2, ink 3 2, ink 1 3, ink 2 3, ink 3 3,
                 ink 6 6, ink 7 6, ink 8 6, ink 6 7, ink 7 7, ink 8 7, ink 6 8, ink 7 8, ink 8 8]"

definition comp_a :: "pixel list" where
  "comp_a = [ink 1 1, ink 2 2, ink 3 3, ink 3 2, ink 3 1, ink 2 1, ink 1 2, ink 2 3, ink 1 3]"

definition comp_b :: "pixel list" where
  "comp_b = [ink 6 6, ink 7 7, ink 8 8, ink 8 7, ink 8 6, ink 7 6, ink 6 7, ink 7 8, ink 6 8]"

definition two_frames :: "frame list" where
  "two_frames = [\<lparr>fr_pixels = comp_a, fr_center = (2, 2), fr_is_transition = True, fr_size = 9\<rparr>,
                 \<lparr>fr_pixels = comp_b, fr_center = (7, 7), fr_is_transition = True, fr_size = 9\<rparr>]"

definition v1_loaded10 :: animator_v1 where
  "v1_loaded10 = init_animator_v1\<lparr>v1_blank_image := Some blank_img, v1_answer_image := Some answer_img,
     v1_canvas_w := 10, v1_canvas_h := 10, v1_canvas := draw_image 10 10 blank_img\<rparr>"

definition v1_processed10 :: animator_v1 where
  "v1_processed10 = v1_loaded10\<lparr>v1_process_enabled := False,
     v1_difference_data := sort_by compare_pixels block_pixels,
     v1_animation_frames := chunks 0 (sort_by compare_pixels block_pixels),
     v1_play_enabled := True, v1_reset_enabled := True, v1_status := (V1Processed, Success)\<rparr>"

lemma lengths10: "length blank10 = 400" "length answer10 = 400"
  unfolding blank10_def answer10_def by code_simp+

lemma differences10: "calculate_differences 10 blank10 answer10 = block_pixels"
  unfolding blank10_def answer10_def block_pixels_def ink_def by code_simp

lemma components10: "find_connected_components 10 10 block_pixels = [block_component]"
  by (simp add: find_connected_components_def block_pixels_def block_component_def ink_def model_defs)

lemma length_block_component: "length block_component = 9"
  by (simp add: block_component_def)

lemma center_block_component: "get_component_center block_component = (4, 4)"
  by (simp add: get_component_center_mean block_component_def ink_def)

lemma frames10:
  "generate_animation_frames 10 10 block_pixels =
     [\<lparr>fr_pixels = block_component, fr_center = (4, 4), fr_is_transition = True, fr_size = 9\<rparr>]"
  by (simp add: generate_animation_frames_def components10 make_frame_def center_block_component
      model_defs is_transition_element_def length_block_component)

lemma frames10': "generate_animation_frames 10 10 block_pixels = [block_frame]"
  by (simp add: frames10 block_frame_def)

lemma image_data10:
  "image_data (draw_image 10 10 blank_img) 10 10 = blank10"
  "image_data (draw_image 10 10 answer_img) 10 10 = answer10"
  "image_data (draw_image 10 10 two_img) 10 10 = two10"
  unfolding image_data_def draw_image_def blank_img_def answer_img_def two_img_def blank10_def
    answer10_def two10_def white_def black_def rgba_bytes_def by code_simp+





lemma scenario_nonempty: "block_pixels \<noteq> []" "two_pixels \<noteq> []" "two_frames \<noteq> []"
  by (simp_all add: block_pixels_def two_pixels_def two_frames_def)

lemma scenario_points:
  "length two_frames = 2" "draw_image 10 10 two_img (2, 2) = black"
  "draw_frame 10 10 (two_frames ! Suc 0) (draw_image 10 10 blank_img) (2, 2) = white" "black \<noteq> white"
  by (simp_all add: two_frames_def draw_image_def two_img_def blank_img_def draw_frame_def
      put_pixel_def comp_b_def ink_def black_def white_def)


lemma v1_process10: "process_images_v1 v1_loaded10 = Some v1_processed10"
proof -
  have "group_size (length block_pixels) = 1" by (simp add: block_pixels_def group_size_def)
  then show ?thesis
    by (simp add: process_images_v1_data v1_loaded10_def v1_processed10_def init_animator_v1_def
        image_data10 differences10)
qed

lemma v1_frames10: "length (chunks 0 (sort_by compare_pixels block_pixels)) = 9"
  by (simp add: length_chunks block_pixels_def)

lemma colour_distance10: "diff_threshold < colour_distance (draw_image 10 10 blank_img (4, 4)) (draw_image 10 10 answer_img (4, 4))"
  by (simp add: draw_image_def blank_img_def answer_img_def white_def black_def colour_distance_def
      channel_diff_def diff_threshold_def)

section \<open>Properties across components\<close>






section \<open>Witnesses\<close>

theorem calculate_differences_spec_witness:
  "length answer10 = length blank10 \<and>
   calculate_differences 10 blank10 answer10 =
     map (pixel_from 10 0 answer10)
       (filter (\<lambda>k. diff_threshold < rgb_diff_at blank10 answer10 k) [0..<length blank10 div 4])"
  using calculate_differences_spec [of answer10 blank10 10] lengths10 by simp

theorem calculate_differences_distinct_coords_witness:
  "0 < (10::nat) \<and> length answer10 = length blank10 \<and>
   distinct (map (\<lambda>p. (px_x p, px_y p)) (calculate_differences 10 blank10 answer10))"
  using calculate_differences_distinct_coords [of 10 answer10 blank10] lengths10 by simp

theorem calculate_differences_in_canvas_witness:
  "length blank10 = 4 * (10 * 10) \<and> length answer10 = length blank10 \<and>
   ink 4 4 \<in> set (calculate_differences 10 blank10 answer10) \<and>
   px_x (ink 4 4) < 10 \<and> px_y (ink 4 4) < 10"
proof -
  have h1: "length blank10 = 4 * (10 * 10)" and h2: "length answer10 = length blank10"
    by (simp_all add: lengths10)
  have h3: "ink 4 4 \<in> set (calculate_differences 10 blank10 answer10)"
    by (simp add: differences10 block_pixels_def)
  from h1 h2 h3 calculate_differences_in_canvas [OF h1 h2 h3] show ?thesis by simp
qed

theorem segment_partition_witness:
  "distinct (map pixel_key block_pixels) \<and>
   mset (concat (segment_traversals 10 10 block_pixels)) = mset block_pixels"
proof -
  have h: "distinct (map pixel_key block_pixels)"
    by (simp add: block_pixels_def ink_def pixel_key_def)
  from h segment_partition [OF h, of 10 10] show ?thesis by simp
qed

theorem component_connected_witness:
  "block_component \<in> set (find_connected_components 10 10 block_pixels) \<and>
   ink 3 3 \<in> set block_component \<and> ink 5 5 \<in> set block_component \<and>
   linked (pixel_key ` set block_component) (pixel_key (ink 3 3)) (pixel_key (ink 5 5))"
proof -
  have h1: "block_component \<in> set (find_connected_components 10 10 block_pixels)"
    by (simp add: components10)
  have h2: "ink 3 3 \<in> set block_component" and h3: "ink 5 5 \<in> set block_component"
    by (simp_all add: block_component_def)
  from h1 h2 h3 component_connected [OF h1 h2 h3] show ?thesis by simp
qed

theorem component_size_bounds_witness:
  "block_component \<in> set (find_connected_components 10 10 block_pixels) \<and>
   5 < length block_component \<and> length block_component \<le> 50001"
proof -
  have h: "block_component \<in> set (find_connected_components 10 10 block_pixels)"
    by (simp add: components10)
  from h component_size_bounds [OF h] show ?thesis by simp
qed

theorem frames_fields_witness:
  "\<lparr>fr_pixels = block_component, fr_center = (4, 4), fr_is_transition = True, fr_size = 9\<rparr>
     \<in> set (generate_animation_frames 10 10 block_pixels)
   \<and> length block_component = 9 \<and> 5 < (9::nat)"
proof -
  have h: "\<lparr>fr_pixels = block_component, fr_center = (4, 4), fr_is_transition = True, fr_size = 9\<rparr>
             \<in> set (generate_animation_frames 10 10 block_pixels)"
    by (simp add: frames10)
  from h frames_fields [OF h] show ?thesis by simp
qed




theorem playback_tick_witness:
  "current_frame (init_animator\<lparr>animation_frames := two_frames\<rparr>) = 0
   \<and> timers (init_animator\<lparr>animation_frames := two_frames\<rparr>) = []
   \<and> 1 < length (animation_frames (init_animator\<lparr>animation_frames := two_frames\<rparr>))
   \<and> map snd (timers ((fire_timer 0 ^^ 1) (start_animation (init_animator\<lparr>animation_frames := two_frames\<rparr>)))) = [1]
   \<and> progress ((fire_timer 0 ^^ 1) (start_animation (init_animator\<lparr>animation_frames := two_frames\<rparr>))) = 100"
proof -
  let ?s = "init_animator\<lparr>animation_frames := two_frames\<rparr>"
  have h1: "current_frame ?s = 0" and h2: "timers ?s = []" and h3: "1 < length (animation_frames ?s)"
    by (simp_all add: init_animator_def scenario_points)
  from h1 h2 h3 playback_tick [OF h1 h2 h3] show ?thesis
    by (simp add: init_animator_def two_frames_def)
qed

theorem playback_completes_witness:
  "current_frame (init_animator\<lparr>animation_frames := two_frames, answer_image := Some two_img\<rparr>) = 0
   \<and> timers (init_animator\<lparr>animation_frames := two_frames, answer_image := Some two_img\<rparr>) = []
   \<and> animation_frames (init_animator\<lparr>animation_frames := two_frames, answer_image := Some two_img\<rparr>) \<noteq> []
   \<and> canvas ((fire_timer 0 ^^ 2) (start_animation
        (init_animator\<lparr>animation_frames := two_frames, answer_image := Some two_img\<rparr>))) =
       draw_image 0 0 two_img"
proof -
  let ?s = "init_animator\<lparr>animation_frames := two_frames, answer_image := Some two_img\<rparr>"
  have h1: "current_frame ?s = 0" and h2: "timers ?s = []" and h3: "animation_frames ?s \<noteq> []"
    and h4: "answer_image ?s = Some two_img"
    by (simp_all add: init_animator_def scenario_nonempty)
  have c: "canvas ((fire_timer 0 ^^ length (animation_frames ?s)) (start_animation ?s)) =
             draw_image (canvas_w ?s) (canvas_h ?s) two_img"
    using playback_completes [OF h1 h2 h3 h4] by blast
  have l: "length (animation_frames ?s) = 2" "canvas_w ?s = 0" "canvas_h ?s = 0"
    by (simp_all add: init_animator_def scenario_points)
  from h1 h2 h3 c show ?thesis by (simp only: l) simp
qed



theorem guarded_single_tick_witness:
  "reachable_guarded init_animator \<and> length (timers init_animator) \<le> 1"
  using guarded_single_tick [OF guarded_init] guarded_init by simp

theorem guarded_pause_stops_witness:
  "reachable_guarded init_animator \<and> step (pause_animation init_animator) (TimerFires 0) = None"
  using guarded_pause_stops [OF guarded_init] guarded_init by simp

theorem process_images_not_loaded_witness:
  "status (process_images init_animator) = (MsgError ImagesNotLoaded, Info)"
proof -
  have h: "blank_image init_animator = None \<or> answer_image init_animator = None"
    by (simp add: init_animator_def)
  from h process_images_not_loaded [OF h] show ?thesis by simp
qed

theorem process_images_no_difference_witness:
  "blank_image (init_animator\<lparr>blank_image := Some blank_img, answer_image := Some blank_img\<rparr>) = Some blank_img
   \<and> status (process_images (init_animator\<lparr>blank_image := Some blank_img, answer_image := Some blank_img\<rparr>))
       = (MsgError NoDifference, Info)"
proof -
  let ?s = "init_animator\<lparr>blank_image := Some blank_img, answer_image := Some blank_img\<rparr>"
  have h1: "blank_image ?s = Some blank_img" and h2: "answer_image ?s = Some blank_img" by simp_all
  have h3: "image_data (draw_image (canvas_w ?s) (canvas_h ?s) blank_img) (canvas_w ?s) (canvas_h ?s) =
            image_data (draw_image (canvas_w ?s) (canvas_h ?s) blank_img) (canvas_w ?s) (canvas_h ?s)" ..
  from h1 process_images_no_difference [OF h1 h2 h3] show ?thesis by simp
qed

theorem process_images_success_witness:
  "animation_frames (process_images (init_animator\<lparr>blank_image := Some blank_img,
       answer_image := Some answer_img, canvas_w := 10, canvas_h := 10\<rparr>)) = [block_frame]
   \<and> play_enabled (process_images (init_animator\<lparr>blank_image := Some blank_img,
       answer_image := Some answer_img, canvas_w := 10, canvas_h := 10\<rparr>))"
proof -
  let ?s = "init_animator\<lparr>blank_image := Some blank_img, answer_image := Some answer_img,
                           canvas_w := 10, canvas_h := 10\<rparr>"
  have h1: "blank_image ?s = Some blank_img" and h2: "answer_image ?s = Some answer_img" by simp_all
  have h3: "block_pixels = calculate_differences (canvas_w ?s)
              (image_data (draw_image (canvas_w ?s) (canvas_h ?s) blank_img) (canvas_w ?s) (canvas_h ?s))
              (image_data (draw_image (canvas_w ?s) (canvas_h ?s) answer_img) (canvas_w ?s) (canvas_h ?s))"
    by (simp add: image_data10 differences10)
  have h4: "generate_animation_frames (canvas_w ?s) (canvas_h ?s) block_pixels \<noteq> []"
    by (simp add: frames10')
  from process_images_success [OF h1 h2 h3 h4] show ?thesis by (simp add: frames10')
qed


theorem reveal_differences_witness:
  "fold (put_pixel 10 10) (calculate_differences 10 (image_data (draw_image 10 10 blank_img) 10 10)
      (image_data (draw_image 10 10 answer_img) 10 10)) (draw_image 10 10 blank_img) (4, 4) =
   draw_image 10 10 answer_img (4, 4)"
proof -
  have x: "4 < (10::nat)" and y: "4 < (10::nat)" by simp_all
  from reveal_differences [OF x y, of "draw_image 10 10 blank_img" "draw_image 10 10 answer_img"]
    colour_distance10
  show ?thesis by simp
qed

theorem frames_v1_roundtrip_witness:
  "concat (chunks 0 (sort_by compare_pixels two_pixels)) = sort_by compare_pixels two_pixels
   \<and> mset (sort_by compare_pixels two_pixels) = mset two_pixels"
proof -
  have h: "generate_animation_frames_v1 two_pixels =
             Some (sort_by compare_pixels two_pixels, chunks 0 (sort_by compare_pixels two_pixels))"
    by (simp add: generate_animation_frames_v1_eq two_pixels_def group_size_def)
  from frames_v1_roundtrip [OF h] show ?thesis .
qed

theorem frames_v1_sizes_witness:
  "length (chunks 0 (sort_by compare_pixels two_pixels) ! 0) = 1"
proof -
  have h: "generate_animation_frames_v1 two_pixels =
             Some (sort_by compare_pixels two_pixels, chunks 0 (sort_by compare_pixels two_pixels))"
    by (simp add: generate_animation_frames_v1_eq two_pixels_def group_size_def)
  have l: "length (chunks 0 (sort_by compare_pixels two_pixels)) = 18" "group_size (length two_pixels) = 1"
    by (simp_all add: length_chunks two_pixels_def group_size_def)
  from frames_v1_sizes [OF h] l show ?thesis by simp
qed

theorem frames_v1_count_witness:
  "length (chunks 0 (sort_by compare_pixels two_pixels)) = length two_pixels \<and> length two_pixels < 100"
proof -
  have h: "generate_animation_frames_v1 two_pixels =
             Some (sort_by compare_pixels two_pixels, chunks 0 (sort_by compare_pixels two_pixels))"
    by (simp add: generate_animation_frames_v1_eq two_pixels_def group_size_def)
  have l: "length two_pixels < 100" by (simp add: two_pixels_def)
  from frames_v1_count [OF h] l show ?thesis by simp
qed

theorem v1_playback_reveals_answer_witness:
  "v1_canvas ((fire_timer_v1 0 ^^ 9) (start_animation_v1 v1_processed10)) (4, 4) = draw_image 10 10 answer_img (4, 4)
   \<and> v1_status ((fire_timer_v1 0 ^^ 9) (start_animation_v1 v1_processed10)) = (V1Complete, Success)"
proof -
  have h1: "v1_blank_image v1_loaded10 = Some blank_img" and h2: "v1_answer_image v1_loaded10 = Some answer_img"
    and h3: "v1_canvas v1_loaded10 = draw_image (v1_canvas_w v1_loaded10) (v1_canvas_h v1_loaded10) blank_img"
    and h4: "v1_current_frame v1_loaded10 = 0" and h5: "v1_timers v1_loaded10 = []"
    and h8: "4 < v1_canvas_w v1_loaded10" and h9: "4 < v1_canvas_h v1_loaded10"
    by (simp_all add: v1_loaded10_def init_animator_v1_def)
  have h7: "v1_animation_frames v1_processed10 \<noteq> []"
    using v1_frames10 by (auto simp: v1_processed10_def)
  have dims: "v1_canvas_w v1_loaded10 = 10" "v1_canvas_h v1_loaded10 = 10"
    "length (v1_animation_frames v1_processed10) = 9"
    using v1_frames10 by (simp_all add: v1_loaded10_def v1_processed10_def init_animator_v1_def)
  from v1_playback_reveals_answer [OF h1 h2 h3 h4 h5 v1_process10 h7 h8 h9] colour_distance10
  show ?thesis by (simp only: dims) simp
qed

theorem process_images_v1_identical_witness:
  "process_images_v1 (init_animator_v1\<lparr>v1_blank_image := Some blank_img, v1_answer_image := Some blank_img\<rparr>) =
     Some ((init_animator_v1\<lparr>v1_blank_image := Some blank_img, v1_answer_image := Some blank_img\<rparr>)
       \<lparr>v1_process_enabled := False, v1_difference_data := [], v1_animation_frames := [],
        v1_play_enabled := True, v1_reset_enabled := True, v1_status := (V1Processed, Success)\<rparr>)"
proof -
  let ?s = "init_animator_v1\<lparr>v1_blank_image := Some blank_img, v1_answer_image := Some blank_img\<rparr>"
  have h1: "v1_blank_image ?s = Some blank_img" and h2: "v1_answer_image ?s = Some blank_img" by simp_all
  have h3: "image_data (draw_image (v1_canvas_w ?s) (v1_canvas_h ?s) blank_img) (v1_canvas_w ?s) (v1_canvas_h ?s) =
            image_data (draw_image (v1_canvas_w ?s) (v1_canvas_h ?s) blank_img) (v1_canvas_w ?s) (v1_canvas_h ?s)" ..
  from process_images_v1_identical [OF h1 h2 h3] show ?thesis .
qed


theorem reachable_frames_wf_witness: "list_all frame_wf (animation_frames init_animator)"
  using reachable_frames_wf [OF reachable_init] .


theorem reveal_monotonic_witness:
  "canvas ((fire_timer 0 ^^ 0) (start_animation (process_images (init_animator\<lparr>blank_image := Some blank_img,
      answer_image := Some answer_img, canvas_w := 10, canvas_h := 10, canvas := draw_image 10 10 blank_img\<rparr>))))
      (4, 4) = draw_image 10 10 answer_img (4, 4)"
proof -
  let ?s = "init_animator\<lparr>blank_image := Some blank_img, answer_image := Some answer_img,
                           canvas_w := 10, canvas_h := 10, canvas := draw_image 10 10 blank_img\<rparr>"
  have p: "process_images ?s = ?s\<lparr>process_enabled := False, difference_data := block_pixels,
      animation_frames := [block_frame], play_enabled := True, reset_enabled := True,
      status := (MsgProcessed, Success)\<rparr>"
    by (simp add: process_images_def update_status_def Let_def image_data10 differences10 frames10'
        scenario_nonempty)
  have h1: "blank_image ?s = Some blank_img" and h2: "answer_image ?s = Some answer_img"
    and h3: "current_frame ?s = 0" and h4: "timers ?s = []"
    by (simp_all add: init_animator_def)
  have h5: "status (process_images ?s) = (MsgProcessed, Success)" by (simp add: p)
  have h6: "0 < length (animation_frames (process_images ?s))" by (simp add: p)
  have m: "(4, 4) \<in> (\<lambda>p. (px_x p, px_y p)) ` set (concat (take (Suc 0) (map fr_pixels (animation_frames (process_images ?s)))))"
    by (simp add: p block_frame_def block_component_def ink_def)
  from reveal_monotonic [OF h1 h2 h3 h4 h5 h6, of 4 4] m show ?thesis by simp
qed

end
